theory Spec2Isabelle
  imports Complex_Main
begin

section \<open>The notebook's cells and their dependency graph\<close>

text \<open>
  \<^verbatim>\<open>analysis.py\<close> declares seven cells with \<^verbatim>\<open>@app.cell\<close>. A cell is a Python
  function: its parameter names are the names it reads, the names of its \<^verbatim>\<open>return\<close>
  statement are the names it defines. \<^verbatim>\<open>summary\<close> and \<^verbatim>\<open>preview\<close> have no
  \<^verbatim>\<open>return\<close>; \<^verbatim>\<open>widgets\<close> and \<^verbatim>\<open>summary\<close> take \<^verbatim>\<open>mo=mo\<close>, the module imported
  at the top of the file, which no cell returns.
\<close>

record cell =
  cname :: string
  params :: "string list"
  returns :: "string list"

definition imports_cell :: cell where
  "imports_cell = \<lparr>cname = ''imports'', params = [], returns = [''np'', ''pd'', ''plt'']\<rparr>"

definition widgets_cell :: cell where
  "widgets_cell = \<lparr>cname = ''widgets'', params = [''mo''], returns = [''n'', ''sigma'']\<rparr>"

definition data_cell :: cell where
  "data_cell = \<lparr>cname = ''data'', params = [''np'', ''pd'', ''n'', ''sigma''], returns = [''df'']\<rparr>"

definition analysis_cell :: cell where
  "analysis_cell = \<lparr>cname = ''analysis'', params = [''np'', ''df''], returns = [''corr'']\<rparr>"

definition summary_cell :: cell where
  "summary_cell = \<lparr>cname = ''summary'', params = [''mo'', ''n'', ''sigma'', ''corr''], returns = []\<rparr>"

definition plot_cell :: cell where
  "plot_cell = \<lparr>cname = ''plot'', params = [''df'', ''plt''], returns = [''fig'']\<rparr>"

definition preview_cell :: cell where
  "preview_cell = \<lparr>cname = ''preview'', params = [''df''], returns = []\<rparr>"

text \<open>The cells in the order the file declares them.\<close>

definition app_cells :: "cell list" where
  "app_cells = [imports_cell, widgets_cell, data_cell, analysis_cell, summary_cell,
                plot_cell, preview_cell]"

text \<open>Cell \<open>a\<close> depends on cell \<open>b\<close> when a parameter name of \<open>a\<close> is a returned name of \<open>b\<close>.\<close>

definition depends_on :: "cell \<Rightarrow> cell \<Rightarrow> bool" where
  "depends_on a b = list_ex (\<lambda>p. p \<in> set (returns b)) (params a)"

definition dep_rel :: "cell list \<Rightarrow> (cell \<times> cell) set" where
  "dep_rel cs = {(a, b). a \<in> set cs \<and> b \<in> set cs \<and> depends_on a b}"

text \<open>
  A list of cells is in dependency order when no cell reads a name returned by itself or
  by a cell further down the list.
\<close>

fun topo_ok :: "cell list \<Rightarrow> bool" where
  "topo_ok [] = True"
| "topo_ok (c # cs) = (list_all (\<lambda>d. \<not> depends_on c d) (c # cs) \<and> topo_ok cs)"

text \<open>All names returned by a list of cells, with repetitions.\<close>

definition outputs :: "cell list \<Rightarrow> string list" where
  "outputs cs = concat (map returns cs)"

definition producers :: "cell list \<Rightarrow> string \<Rightarrow> cell list" where
  "producers cs x = filter (\<lambda>c. x \<in> set (returns c)) cs"

text \<open>Position of the first occurrence of a cell in a list.\<close>

definition pos :: "cell list \<Rightarrow> cell \<Rightarrow> nat" where
  "pos cs c = length (takeWhile (\<lambda>d. d \<noteq> c) cs)"

section \<open>Python values, floats and the numpy interface\<close>

text \<open>
  The cells are Python functions over dynamically typed values. The values that reach the
  parameters \<^verbatim>\<open>n\<close>, \<^verbatim>\<open>sigma\<close> and \<^verbatim>\<open>corr\<close> are \<^verbatim>\<open>None\<close> (the defaults of
  \<^verbatim>\<open>summary\<close>), numbers, strings and the slider objects built by \<^verbatim>\<open>mo.ui.slider\<close>.
  A raised exception is the \<open>Inl\<close> branch of a sum.
\<close>

datatype pyerr =
  AttributeError | TypeError | ValueError | KeyError | IndexError | OverflowError | NameError

datatype 'f pynum = PyInt int | PyFloat 'f

datatype 'f slider =
  Slider (start: "'f pynum") (stop: "'f pynum") (step: "'f pynum") (svalue: "'f pynum")
    (label: string)

datatype 'f pyval = PyNone | PyNum "'f pynum" | PyStr string | PySlider "'f slider"

text \<open>
  Python's \<^verbatim>\<open>float\<close> is an IEEE double. Its arithmetic is not redone here: the type of
  floats is a parameter \<open>'f\<close> and the operations the program uses on it are the fields of
  a record. \<open>float_lit\<close> reads a decimal literal, \<open>float_of_int\<close> is \<^verbatim>\<open>float(i)\<close>
  (OverflowError for a large \<open>i\<close>), \<open>int_of_float\<close> is \<^verbatim>\<open>int(f)\<close> (ValueError on nan,
  OverflowError on an infinity), \<open>format_f k\<close> is \<^verbatim>\<open>format(f, '.kf')\<close>.
\<close>

record 'f pyfloat =
  float_lit :: "rat \<Rightarrow> 'f"
  float_of_int :: "int \<Rightarrow> pyerr + 'f"
  int_of_float :: "'f \<Rightarrow> pyerr + int"
  fmul :: "'f \<Rightarrow> 'f \<Rightarrow> 'f"
  fadd :: "'f \<Rightarrow> 'f \<Rightarrow> 'f"
  format_f :: "nat \<Rightarrow> 'f \<Rightarrow> string"

text \<open>
  The cell parameter \<^verbatim>\<open>np\<close>. A generator is a mutable object in Python; here its state
  \<open>'g\<close> is passed explicitly. \<open>default_rng seed\<close> is the state of a generator built from
  an integer seed. \<open>entropy_rng\<close> builds a generator from fresh entropy of the operating
  system, as numpy does when no seed is given: \<open>'w\<close> is the state of that entropy source,
  which the call consumes. \<open>normal g loc scale size\<close> is
  \<^verbatim>\<open>g.normal(loc, scale, size=size)\<close>, returning the samples and the advanced state, or
  the exception numpy raises. \<open>corrcoef x y\<close> is \<^verbatim>\<open>np.corrcoef(x, y)\<close>, a matrix as a
  list of rows.
\<close>

record ('w, 'g, 'f) numpy =
  default_rng :: "int \<Rightarrow> 'g"
  entropy_rng :: "'w \<Rightarrow> 'g \<times> 'w"
  normal :: "'g \<Rightarrow> 'f \<Rightarrow> 'f \<Rightarrow> int \<Rightarrow> pyerr + ('f list \<times> 'g)"
  corrcoef :: "'f list \<Rightarrow> 'f list \<Rightarrow> pyerr + 'f list list"

text \<open>
  The call \<^verbatim>\<open>np.random.default_rng(seed)\<close>: with \<^verbatim>\<open>seed=None\<close> the generator comes
  from the entropy source, with an integer it is determined by the seed and the entropy
  source is not touched.
\<close>

definition np_random_default_rng ::
  "('w, 'g, 'f) numpy \<Rightarrow> int option \<Rightarrow> 'w \<Rightarrow> 'g \<times> 'w" where
  "np_random_default_rng np seed w =
     (case seed of None \<Rightarrow> entropy_rng np w | Some s \<Rightarrow> (default_rng np s, w))"

text \<open>
  The parameter \<^verbatim>\<open>mo\<close> of \<^verbatim>\<open>summary\<close>. A marimo element formats itself as its HTML
  text whatever the format specification is; \<open>html_text\<close> is that text for a slider.
  \<^verbatim>\<open>mo.md(text)\<close> is shown as the markdown source it is given.
\<close>

record 'f marimo =
  html_text :: "'f slider \<Rightarrow> string"

text \<open>Attribute access \<^verbatim>\<open>v.value\<close>: only a slider has the attribute.\<close>

definition getattr_value :: "'f pyval \<Rightarrow> pyerr + 'f pynum" where
  "getattr_value v = (case v of PySlider s \<Rightarrow> Inr (svalue s) | _ \<Rightarrow> Inl AttributeError)"

definition py_int :: "'f pyfloat \<Rightarrow> 'f pynum \<Rightarrow> pyerr + int" where
  "py_int fl v = (case v of PyInt i \<Rightarrow> Inr i | PyFloat f \<Rightarrow> int_of_float fl f)"

definition py_float :: "'f pyfloat \<Rightarrow> 'f pynum \<Rightarrow> pyerr + 'f" where
  "py_float fl v = (case v of PyInt i \<Rightarrow> float_of_int fl i | PyFloat f \<Rightarrow> Inr f)"

text \<open>
  \<^verbatim>\<open>format(v, '.kf')\<close>, as an f-string field \<^verbatim>\<open>{v:.kf}\<close> does it: a float is formatted,
  an int is converted to a float first, a slider gives its HTML text and ignores the
  specification, a string rejects the format code (ValueError), \<^verbatim>\<open>None\<close> rejects a
  non-empty format specification (TypeError).
\<close>

definition format_fixed ::
  "'f marimo \<Rightarrow> 'f pyfloat \<Rightarrow> nat \<Rightarrow> 'f pyval \<Rightarrow> pyerr + string" where
  "format_fixed mo fl k v =
     (case v of
        PyNum (PyFloat f) \<Rightarrow> Inr (format_f fl k f)
      | PyNum (PyInt i) \<Rightarrow>
          (case float_of_int fl i of Inl e \<Rightarrow> Inl e | Inr f \<Rightarrow> Inr (format_f fl k f))
      | PySlider s \<Rightarrow> Inr (html_text mo s)
      | PyStr s \<Rightarrow> Inl ValueError
      | PyNone \<Rightarrow> Inl TypeError)"

text \<open>\<^verbatim>\<open>str(i)\<close> for an int.\<close>

definition digit_char :: "nat \<Rightarrow> char" where
  "digit_char d = char_of (48 + d)"

fun show_nat :: "nat \<Rightarrow> string" where
  "show_nat n = (if n < 10 then [digit_char n] else show_nat (n div 10) @ [digit_char (n mod 10)])"

declare show_nat.simps [simp del]

definition show_int :: "int \<Rightarrow> string" where
  "show_int i = (if i < 0 then CHR ''-'' # show_nat (nat (- i)) else show_nat (nat i))"

subsection \<open>Arrays and data frames\<close>

text \<open>
  A one-dimensional array is a list. \<^verbatim>\<open>a * x\<close> with a scalar \<open>a\<close> multiplies every
  element; \<^verbatim>\<open>x + y\<close> adds elementwise, broadcasts an array of length one, and raises
  ValueError for any other pair of different lengths.
\<close>

definition scalar_mul :: "'f pyfloat \<Rightarrow> 'f \<Rightarrow> 'f list \<Rightarrow> 'f list" where
  "scalar_mul fl a xs = map (fmul fl a) xs"

definition array_add :: "'f pyfloat \<Rightarrow> 'f list \<Rightarrow> 'f list \<Rightarrow> pyerr + 'f list" where
  "array_add fl xs ys =
     (if length xs = length ys then Inr (map2 (fadd fl) xs ys)
      else if length xs = 1 then Inr (map (fadd fl (hd xs)) ys)
      else if length ys = 1 then Inr (map (\<lambda>x. fadd fl x (hd ys)) xs)
      else Inl ValueError)"

text \<open>
  A data frame is its columns in order, each a name and an array.
  \<^verbatim>\<open>pd.DataFrame({...})\<close> raises ValueError unless all arrays have the same length;
  \<^verbatim>\<open>df[name]\<close> raises KeyError for a missing column.
\<close>

datatype 'f frame = Frame (columns: "(string \<times> 'f list) list")

definition DataFrame :: "(string \<times> 'f list) list \<Rightarrow> pyerr + 'f frame" where
  "DataFrame cols =
     (case cols of
        [] \<Rightarrow> Inr (Frame [])
      | c # cs \<Rightarrow>
          if list_all (\<lambda>d. length (snd d) = length (snd c)) cs then Inr (Frame cols)
          else Inl ValueError)"

definition getitem :: "'f frame \<Rightarrow> string \<Rightarrow> pyerr + 'f list" where
  "getitem df k = (case map_of (columns df) k of None \<Rightarrow> Inl KeyError | Some xs \<Rightarrow> Inr xs)"

definition nrows :: "'f frame \<Rightarrow> nat" where
  "nrows df = (case columns df of [] \<Rightarrow> 0 | c # cs \<Rightarrow> length (snd c))"

text \<open>\<^verbatim>\<open>m[i, j]\<close> on a matrix: IndexError outside its shape.\<close>

definition index2 :: "'f list list \<Rightarrow> nat \<Rightarrow> nat \<Rightarrow> pyerr + 'f" where
  "index2 m i j =
     (if i < length m \<and> j < length (m ! i) then Inr (m ! i ! j) else Inl IndexError)"

section \<open>The cells\<close>

text \<open>
  \<^verbatim>\<open>widgets\<close>: the two sliders, with the values they start at. The label of the second
  ends in a Greek sigma, written as its two UTF-8 bytes.
\<close>

definition widgets :: "'f pyfloat \<Rightarrow> 'f slider \<times> 'f slider" where
  "widgets fl =
     (Slider (PyInt 50) (PyInt 2000) (PyInt 50) (PyInt 500) ''Sample size (n)'',
      Slider (PyFloat (float_lit fl (1 / 10))) (PyFloat (float_lit fl 5))
        (PyFloat (float_lit fl (1 / 10))) (PyFloat (float_lit fl 1))
        (''Noise '' @ [char_of (207::nat), char_of (131::nat)]))"

text \<open>
  \<^verbatim>\<open>data(np, pd, n, sigma)\<close>, statement by statement. The call of line 40 is the only
  one that could read the entropy source \<open>w\<close>; the cell returns its result together
  with the entropy source after the call. In line 44 Python evaluates \<^verbatim>\<open>2.0 * x\<close> first,
  then the arguments of the second \<^verbatim>\<open>rng.normal\<close>, then the call, then the sum. The
  local \<^verbatim>\<open>size\<close> is \<open>sz\<close> here.
\<close>

definition data ::
  "('w, 'g, 'f) numpy \<Rightarrow> 'f pyfloat \<Rightarrow> 'f pyval \<Rightarrow> 'f pyval \<Rightarrow> 'w \<Rightarrow> (pyerr + 'f frame) \<times> 'w"
  where
  "data np fl n sigma w =
     (case np_random_default_rng np (Some 42) w of (rng, w1) \<Rightarrow>
      ((case getattr_value n of Inl e \<Rightarrow> Inl e | Inr nv \<Rightarrow>
       (case py_int fl nv of Inl e \<Rightarrow> Inl e | Inr sz \<Rightarrow>
       (case normal np rng (float_lit fl 0) (float_lit fl 1) sz of Inl e \<Rightarrow> Inl e
        | Inr (x, rng1) \<Rightarrow>
       (let two_x = scalar_mul fl (float_lit fl 2) x in
       (case getattr_value sigma of Inl e \<Rightarrow> Inl e | Inr sv \<Rightarrow>
       (case py_float fl sv of Inl e \<Rightarrow> Inl e | Inr sd \<Rightarrow>
       (case normal np rng1 (float_lit fl 0) sd sz of Inl e \<Rightarrow> Inl e
        | Inr (noise, rng2) \<Rightarrow>
       (case array_add fl two_x noise of Inl e \<Rightarrow> Inl e | Inr y \<Rightarrow>
        DataFrame [(''x'', x), (''y'', y)])))))))),
       w1))"

text \<open>
  \<^verbatim>\<open>analysis(np, df)\<close>. \<^verbatim>\<open>float(...)\<close> of a numpy double is the same double.
\<close>

definition analysis :: "('w, 'g, 'f) numpy \<Rightarrow> 'f frame \<Rightarrow> pyerr + 'f" where
  "analysis np df =
     (case getitem df ''x'' of Inl e \<Rightarrow> Inl e | Inr xs \<Rightarrow>
     (case getitem df ''y'' of Inl e \<Rightarrow> Inl e | Inr ys \<Rightarrow>
     (case corrcoef np xs ys of Inl e \<Rightarrow> Inl e | Inr m \<Rightarrow>
      index2 m 0 1)))"

text \<open>
  \<^verbatim>\<open>summary(mo=mo, n=None, sigma=None, corr=None)\<close>. The f-string evaluates and formats
  its three fields from left to right; the result is the markdown source handed to
  \<^verbatim>\<open>mo.md\<close>. Non-ASCII characters of the template are written as UTF-8 bytes.
\<close>

definition nl :: string where
  "nl = [char_of (10::nat)]"

definition sigma_utf8 :: string where
  "sigma_utf8 = [char_of (207::nat), char_of (131::nat)]"

definition arrow_utf8 :: string where
  "arrow_utf8 = [char_of (226::nat), char_of (134::nat), char_of (146::nat)]"

definition summary_text :: "string \<Rightarrow> string \<Rightarrow> string \<Rightarrow> string" where
  "summary_text a b c =
     nl @ ''# Interactive correlation demo'' @ nl @ nl
     @ ''**Email:** `24ds1000121@ds.study.iitm.ac.in`  '' @ nl @ nl
     @ ''- Current sample size **n = '' @ a @ ''**'' @ nl
     @ ''- Current noise **'' @ sigma_utf8 @ '' = '' @ b @ ''**'' @ nl
     @ ''- Estimated Pearson correlation **r = '' @ c @ ''**'' @ nl @ nl
     @ ''> Increase '' @ sigma_utf8
     @ '' to add noise and reduce correlation. Increase n to stabilize the estimate.''
     @ nl @ nl
     @ ''*Data flow:* `widgets '' @ arrow_utf8 @ '' data '' @ arrow_utf8 @ '' analysis ''
     @ arrow_utf8 @ '' (summary + plot + preview)`'' @ nl"

definition summary ::
  "'f marimo \<Rightarrow> 'f pyfloat \<Rightarrow> 'f pyval \<Rightarrow> 'f pyval \<Rightarrow> 'f pyval \<Rightarrow> pyerr + string" where
  "summary mo fl n sigma corr =
     (case getattr_value n of Inl e \<Rightarrow> Inl e | Inr nv \<Rightarrow>
     (case py_int fl nv of Inl e \<Rightarrow> Inl e | Inr i \<Rightarrow>
     (case getattr_value sigma of Inl e \<Rightarrow> Inl e | Inr sv \<Rightarrow>
     (case py_float fl sv of Inl e \<Rightarrow> Inl e | Inr s \<Rightarrow>
     (case format_fixed mo fl 3 corr of Inl e \<Rightarrow> Inl e | Inr c \<Rightarrow>
      Inr (summary_text (show_int i) (format_f fl 2 s) c))))))"

subsection \<open>Running cells on the notebook's globals\<close>

text \<open>
  The runtime calls a cell with the current values of the names it reads and binds the
  names it returns. \<open>g_df\<close> and \<open>g_corr\<close> are unbound until their cell has run. The
  entropy source is threaded through the run of the data cell.
\<close>

record 'f globals =
  g_n :: "'f pyval"
  g_sigma :: "'f pyval"
  g_df :: "'f frame option"
  g_corr :: "'f option"

definition run_data ::
  "('w, 'g, 'f) numpy \<Rightarrow> 'f pyfloat \<Rightarrow> 'f globals \<Rightarrow> 'w \<Rightarrow> (pyerr + 'f globals) \<times> 'w"
  where
  "run_data np fl s w =
     (case data np fl (g_n s) (g_sigma s) w of
        (Inl e, w1) \<Rightarrow> (Inl e, w1)
      | (Inr df, w1) \<Rightarrow> (Inr (s\<lparr>g_df := Some df\<rparr>), w1))"

definition run_analysis :: "('w, 'g, 'f) numpy \<Rightarrow> 'f globals \<Rightarrow> pyerr + 'f globals" where
  "run_analysis np s =
     (case g_df s of None \<Rightarrow> Inl NameError
      | Some df \<Rightarrow>
          (case analysis np df of Inl e \<Rightarrow> Inl e | Inr c \<Rightarrow> Inr (s\<lparr>g_corr := Some c\<rparr>)))"

definition run_data_analysis ::
  "('w, 'g, 'f) numpy \<Rightarrow> 'f pyfloat \<Rightarrow> 'f globals \<Rightarrow> 'w \<Rightarrow> (pyerr + 'f globals) \<times> 'w"
  where
  "run_data_analysis np fl s w =
     (case run_data np fl s w of
        (Inl e, w1) \<Rightarrow> (Inl e, w1)
      | (Inr s1, w1) \<Rightarrow> (run_analysis np s1, w1))"

subsection \<open>What the program relies on from numpy\<close>

text \<open>
  \<open>ok\<close> is the set of scales numpy accepts. A draw of a non-negative size with an
  accepted scale returns that many samples; the correlation matrix of two arrays of the
  same length has two rows and two columns.
\<close>

definition normal_contract :: "('w, 'g, 'f) numpy \<Rightarrow> ('f \<Rightarrow> bool) \<Rightarrow> bool" where
  "normal_contract np ok =
     (\<forall>g loc sc k. 0 \<le> k \<longrightarrow> ok sc \<longrightarrow>
        (\<exists>xs g'. normal np g loc sc k = Inr (xs, g') \<and> length xs = nat k))"

definition corrcoef_contract :: "('w, 'g, 'f) numpy \<Rightarrow> bool" where
  "corrcoef_contract np =
     (\<forall>xs ys. length xs = length ys \<longrightarrow>
        (\<exists>a b c d. corrcoef np xs ys = Inr [[a, b], [c, d]]))"

subsection \<open>The correlation matrix in exact arithmetic\<close>

text \<open>
  numpy is not part of the repository. Its documentation defines \<^verbatim>\<open>np.corrcoef\<close> by the
  covariance matrix \<open>C\<close> of \<^verbatim>\<open>np.cov\<close>, which divides the sums of products of
  deviations by the number of observations minus one: the entry \<open>(i, j)\<close> of the result is
  \<open>C i j / sqrt (C i i * C j j)\<close>. The definitions below are this computation on real
  numbers, where a float is a real number or nan (\<open>None\<close>): an array holding a nan, fewer
  than two observations, or a zero variance give nan, as the divisions of zero by zero
  do in numpy. (numpy also clips the result to the interval from -1 to 1, to undo
  rounding; exact arithmetic has none.)
\<close>

fun all_defined :: "real option list \<Rightarrow> real list option" where
  "all_defined [] = Some []"
| "all_defined (a # as) =
     (case a of
        None \<Rightarrow> None
      | Some x \<Rightarrow> (case all_defined as of None \<Rightarrow> None | Some xs \<Rightarrow> Some (x # xs)))"

definition mean :: "real list \<Rightarrow> real" where
  "mean xs = sum_list xs / real (length xs)"

definition dev_prod :: "real list \<Rightarrow> real list \<Rightarrow> real" where
  "dev_prod xs ys = sum_list (map2 (\<lambda>x y. (x - mean xs) * (y - mean ys)) xs ys)"

definition cov_entry :: "real list \<Rightarrow> real list \<Rightarrow> real option" where
  "cov_entry xs ys =
     (if length xs \<le> 1 then None else Some (dev_prod xs ys / (real (length xs) - 1)))"

definition corr_entry :: "real list \<Rightarrow> real list \<Rightarrow> real option" where
  "corr_entry xs ys =
     (case cov_entry xs ys of None \<Rightarrow> None | Some c \<Rightarrow>
     (case cov_entry xs xs of None \<Rightarrow> None | Some a \<Rightarrow>
     (case cov_entry ys ys of None \<Rightarrow> None | Some b \<Rightarrow>
      if a * b = 0 then None else Some (c / sqrt (a * b)))))"

definition corr_of :: "real option list \<Rightarrow> real option list \<Rightarrow> real option" where
  "corr_of xs ys =
     (case all_defined xs of None \<Rightarrow> None | Some a \<Rightarrow>
     (case all_defined ys of None \<Rightarrow> None | Some b \<Rightarrow> corr_entry a b))"

definition corrcoef_exact ::
  "real option list \<Rightarrow> real option list \<Rightarrow> pyerr + real option list list" where
  "corrcoef_exact xs ys =
     (if length xs \<noteq> length ys then Inl ValueError
      else Inr [[corr_of xs xs, corr_of xs ys], [corr_of ys xs, corr_of ys ys]])"

text \<open>
  The Pearson correlation coefficient of two samples: the sum of the products of the
  deviations from the means, over the square root of the product of the two sums of
  squared deviations. It is undefined (\<open>None\<close>) when a sample has no variation or holds
  a nan.
\<close>

definition pearson :: "real list \<Rightarrow> real list \<Rightarrow> real option" where
  "pearson xs ys =
     (if dev_prod xs xs * dev_prod ys ys = 0 then None
      else Some (dev_prod xs ys / sqrt (dev_prod xs xs * dev_prod ys ys)))"

definition pearson_of :: "real option list \<Rightarrow> real option list \<Rightarrow> real option" where
  "pearson_of xs ys =
     (case all_defined xs of None \<Rightarrow> None | Some a \<Rightarrow>
     (case all_defined ys of None \<Rightarrow> None | Some b \<Rightarrow> pearson a b))"

subsection \<open>An instance to run the cells on\<close>

text \<open>
  Floats as real numbers with exact arithmetic and nan, a linear congruential generator
  in place of numpy's, a counter as the entropy source, and the correlation matrix in
  exact arithmetic: enough to evaluate the cells on concrete inputs.
\<close>

definition lift2 :: "(real \<Rightarrow> real \<Rightarrow> real) \<Rightarrow> real option \<Rightarrow> real option \<Rightarrow> real option" where
  "lift2 f a b =
     (case a of None \<Rightarrow> None | Some x \<Rightarrow> (case b of None \<Rightarrow> None | Some y \<Rightarrow> Some (f x y)))"

definition pad_left :: "nat \<Rightarrow> string \<Rightarrow> string" where
  "pad_left k s = replicate (k - length s) CHR ''0'' @ s"

definition format_real :: "nat \<Rightarrow> real option \<Rightarrow> string" where
  "format_real k a =
     (case a of
        None \<Rightarrow> ''nan''
      | Some q \<Rightarrow>
          (let m = nat \<lfloor>\<bar>q\<bar> * 10 ^ k + 1 / 2\<rfloor>;
               body = show_nat (m div 10 ^ k)
                 @ (if k = 0 then [] else CHR ''.'' # pad_left k (show_nat (m mod 10 ^ k)))
           in if q < 0 \<and> m \<noteq> 0 then CHR ''-'' # body else body))"

definition fl_exact :: "real option pyfloat" where
  "fl_exact = \<lparr>float_lit = (\<lambda>q. Some (of_rat q)),
               float_of_int = (\<lambda>i. Inr (Some (of_int i))),
               int_of_float = (\<lambda>a. case a of
                   None \<Rightarrow> Inl ValueError
                 | Some q \<Rightarrow> Inr (if 0 \<le> q then \<lfloor>q\<rfloor> else \<lceil>q\<rceil>)),
               fmul = lift2 (\<lambda>a b. a * b),
               fadd = lift2 (\<lambda>a b. a + b),
               format_f = format_real\<rparr>"

definition negative :: "real option \<Rightarrow> bool" where
  "negative a = (case a of None \<Rightarrow> False | Some q \<Rightarrow> q < 0)"

fun lcg_draws :: "nat \<Rightarrow> real option \<Rightarrow> real option \<Rightarrow> nat \<Rightarrow> real option list \<times> nat" where
  "lcg_draws g loc sc 0 = ([], g)"
| "lcg_draws g loc sc (Suc k) =
     (let g' = (g * 75 + 74) mod 65537;
          z = (real (g' mod 7) - 3) / 2;
          (xs, g'') = lcg_draws g' loc sc k
      in (lift2 (\<lambda>a b. a + b) loc (lift2 (\<lambda>a b. a * b) sc (Some z)) # xs, g''))"

definition np_lcg :: "(nat, nat, real option) numpy" where
  "np_lcg = \<lparr>default_rng = (\<lambda>seed. nat \<bar>seed\<bar>),
             entropy_rng = (\<lambda>w. (w, Suc w)),
             normal = (\<lambda>g loc sc k.
               if negative sc \<or> k < 0 then Inl ValueError
               else Inr (lcg_draws g loc sc (nat k))),
             corrcoef = corrcoef_exact\<rparr>"

text \<open>
  A second instance whose generator never advances and returns its own seed as every
  sample, so that the seed a cell used can be read off the samples.
\<close>

definition np_probe :: "(nat, int, real option) numpy" where
  "np_probe = \<lparr>default_rng = (\<lambda>seed. seed),
               entropy_rng = (\<lambda>w. (int w, Suc w)),
               normal = (\<lambda>g loc sc k.
                 if negative sc \<or> k < 0 then Inl ValueError
                 else Inr (replicate (nat k) (Some (of_int g)), g)),
               corrcoef = corrcoef_exact\<rparr>"


section \<open>The reactive graph evaluator\<close>

text \<open>
  The notebook runtime that re-runs cells is not part of the repository; the
  specification describes it as a graph evaluator with the operations \<^verbatim>\<open>notify\<close> and
  \<^verbatim>\<open>evaluate\<close>. The definitions of this section follow that description. The cells of
  a graph are listed in the topological order that \<^verbatim>\<open>finalize\<close> returned.
\<close>

text \<open>
  Modelled from the spec: the per-cell state machine of section 4.2,
  \<^verbatim>\<open>Stale -> Computing -> {Fresh, Errored}\<close>.
\<close>

datatype cstate = Stale | Computing | Fresh | Errored

text \<open>
  Modelled from the spec: the execution results the graph owns (section 3). \<open>status\<close> is
  the state of each cell by name, \<open>vcells\<close> holds the value cells, \<open>cache\<close> the latest
  fresh value of each output name, and \<open>visited\<close> lists the cells the last pass worked
  on, in order.
\<close>

record 'v gstate =
  status :: "string \<Rightarrow> cstate"
  vcells :: "string \<rightharpoonup> 'v"
  cache :: "string \<rightharpoonup> 'v"
  visited :: "string list"

text \<open>
  Modelled from the spec: the affected set of \<^verbatim>\<open>notify\<close>, the forward transitive closure
  of the changed names along the topological order. One pass suffices: a cell is affected
  when it reads a changed name or a name returned by an affected cell before it.
\<close>

fun affected :: "cell list \<Rightarrow> string list \<Rightarrow> string list" where
  "affected [] changed = []"
| "affected (c # cs) changed =
     (if list_ex (\<lambda>p. p \<in> set changed) (params c)
      then cname c # affected cs (changed @ returns c)
      else affected cs changed)"

text \<open>
  Modelled from the spec: \<^verbatim>\<open>notify(changed_names)\<close> marks the affected cells stale and
  is a no-op when nothing is affected.
\<close>

definition notify :: "cell list \<Rightarrow> string list \<Rightarrow> 'v gstate \<Rightarrow> 'v gstate" where
  "notify cs changed st =
     st\<lparr>status := (\<lambda>nm. if nm \<in> set (affected cs changed) then Stale else status st nm)\<rparr>"

text \<open>
  Modelled from the spec: the resolved inputs of a cell, drawn from the value cells or
  from the latest cached outputs of upstream cells.
\<close>

definition resolve :: "'v gstate \<Rightarrow> string \<Rightarrow> 'v option" where
  "resolve st p = (case vcells st p of Some v \<Rightarrow> Some v | None \<Rightarrow> cache st p)"

text \<open>
  Modelled from the spec: the resolved inputs of all parameters of a cell, in order;
  none when a parameter has no value.
\<close>

fun resolve_all :: "'v gstate \<Rightarrow> string list \<Rightarrow> 'v list option" where
  "resolve_all st [] = Some []"
| "resolve_all st (p # ps) =
     (case resolve st p of
        None \<Rightarrow> None
      | Some v \<Rightarrow> (case resolve_all st ps of None \<Rightarrow> None | Some vs \<Rightarrow> Some (v # vs)))"

text \<open>
  Modelled from the spec: a cell is in error without being computed when a cell it
  depends on is in the error state.
\<close>

definition upstream_failed :: "cell list \<Rightarrow> 'v gstate \<Rightarrow> cell \<Rightarrow> bool" where
  "upstream_failed cs st c =
     list_ex (\<lambda>d. status st (cname d) = Errored \<and> depends_on c d) cs"

text \<open>
  Modelled from the spec: one step of \<^verbatim>\<open>evaluate\<close> on a stale cell. The cell enters
  \<open>Computing\<close>; it ends \<open>Errored\<close> when an upstream cell failed, when an input has no
  value, when its compute function raises or returns the wrong number of outputs, and
  \<open>Fresh\<close> with its outputs stored otherwise. An exception of the compute function is
  caught here.
\<close>

definition run_cell ::
  "cell list \<Rightarrow> (string \<Rightarrow> 'v list \<Rightarrow> 'e + 'v list) \<Rightarrow> cell \<Rightarrow> 'v gstate \<Rightarrow> 'v gstate" where
  "run_cell cs compute c st =
     (let st1 = st\<lparr>status := (status st)(cname c := Computing),
                   visited := visited st @ [cname c]\<rparr>;
          failed = st1\<lparr>status := (status st1)(cname c := Errored)\<rparr>
      in if upstream_failed cs st c then failed
         else case resolve_all st (params c) of
                None \<Rightarrow> failed
              | Some args \<Rightarrow>
                  (case compute (cname c) args of
                     Inl e \<Rightarrow> failed
                   | Inr outs \<Rightarrow>
                       if length outs \<noteq> length (returns c) then failed
                       else st1\<lparr>status := (status st1)(cname c := Fresh),
                                cache := cache st1 ++ map_of (zip (returns c) outs)\<rparr>))"

text \<open>
  Modelled from the spec: the walk of \<^verbatim>\<open>evaluate()\<close> over the cells in topological
  order. It works on the stale cells; every other cell is left as it is.
\<close>

fun eval_walk ::
  "cell list \<Rightarrow> (string \<Rightarrow> 'v list \<Rightarrow> 'e + 'v list) \<Rightarrow> cell list \<Rightarrow> 'v gstate \<Rightarrow> 'v gstate"
  where
  "eval_walk cs compute [] st = st"
| "eval_walk cs compute (c # rest) st =
     eval_walk cs compute rest
       (if status st (cname c) = Stale then run_cell cs compute c st else st)"

text \<open>
  Modelled from the spec: \<^verbatim>\<open>evaluate()\<close> is one walk over all cells of the graph. It
  returns the new state and does not raise: the exceptions of compute functions end in
  \<open>run_cell\<close>.
\<close>

definition evaluate ::
  "cell list \<Rightarrow> (string \<Rightarrow> 'v list \<Rightarrow> 'e + 'v list) \<Rightarrow> 'v gstate \<Rightarrow> 'v gstate" where
  "evaluate cs compute st = eval_walk cs compute cs (st\<lparr>visited := []\<rparr>)"

text \<open>
  A cell is downstream of a cell \<open>x\<close> when it is \<open>x\<close> or depends on it through any number
  of cells.
\<close>

definition downstream :: "cell list \<Rightarrow> cell \<Rightarrow> cell \<Rightarrow> bool" where
  "downstream cs x c = (c = x \<or> (c, x) \<in> (dep_rel cs)\<^sup>+)"

subsection \<open>A run of the program's graph\<close>

text \<open>
  Values are numbers here. Every compute function returns one zero for each name its
  cell returns, except that of the cell named by the first argument, which raises.
  In the state \<open>all_fresh\<close> all seven cells are fresh, every output is cached and the
  module \<^verbatim>\<open>mo\<close> is a value cell.
\<close>

definition zeros_except :: "string \<Rightarrow> string \<Rightarrow> nat list \<Rightarrow> unit + nat list" where
  "zeros_except bad nm args =
     (if nm = bad then Inl ()
      else Inr (concat (map (\<lambda>c. if cname c = nm then map (\<lambda>r. 0) (returns c) else [])
                  app_cells)))"

definition all_fresh :: "nat gstate" where
  "all_fresh = \<lparr>status = (\<lambda>nm. Fresh), vcells = [''mo'' \<mapsto> 1],
                cache = map_of (map (\<lambda>x. (x, 7)) (outputs app_cells)), visited = []\<rparr>"

subsection \<open>The scenario of a change of sigma\<close>

text \<open>
  Modelled from the spec: the concrete scenario of section 8. The graph holds the data
  cell and the analysis cell of the source, followed by any cells that depend solely on
  \<^verbatim>\<open>n\<close>; the names the data cell reads are value cells.
\<close>

definition scenario :: "cell list \<Rightarrow> cell list" where
  "scenario extra = data_cell # analysis_cell # extra"

definition only_n :: "cell \<Rightarrow> bool" where
  "only_n c = list_all (\<lambda>p. p = ''n'') (params c)"

text \<open>
  A run of the scenario with one more cell, which reads \<^verbatim>\<open>n\<close> alone. Values are numbers
  and every compute function returns the sum of its inputs. In the state before the
  change all cells are fresh.
\<close>

definition count_cell :: cell where
  "count_cell = \<lparr>cname = ''count'', params = [''n''], returns = [''m'']\<rparr>"

definition sum_inputs :: "string \<Rightarrow> nat list \<Rightarrow> unit + nat list" where
  "sum_inputs nm args = Inr [sum_list args]"

definition scenario_state :: "nat gstate" where
  "scenario_state =
     \<lparr>status = (\<lambda>nm. Fresh),
      vcells = [''np'' \<mapsto> 1, ''pd'' \<mapsto> 2, ''n'' \<mapsto> 500, ''sigma'' \<mapsto> 5],
      cache = [''df'' \<mapsto> 504, ''corr'' \<mapsto> 505, ''m'' \<mapsto> 500],
      visited = []\<rparr>"

lemmas cell_defs = imports_cell_def widgets_cell_def data_cell_def analysis_cell_def
  summary_cell_def plot_cell_def preview_cell_def

section \<open>Dependency order\<close>

lemma pos_Cons: "pos (c # cs) a = (if a = c then 0 else Suc (pos cs a))"
  by (auto simp: pos_def)

lemma topo_ok_pos:
  "topo_ok cs \<Longrightarrow> a \<in> set cs \<Longrightarrow> b \<in> set cs \<Longrightarrow> depends_on a b \<Longrightarrow> pos cs b < pos cs a"
proof (induction cs)
  case Nil
  then show ?case by simp
next
  case (Cons c cs)
  from Cons.prems(1) have none: "\<forall>d \<in> set (c # cs). \<not> depends_on c d" and rest: "topo_ok cs"
    by (simp_all add: list_all_iff)
  from none Cons.prems(3,4) have ac: "a \<noteq> c" by auto
  with Cons.prems(2) have a_in: "a \<in> set cs" by simp
  show ?case
  proof (cases "b = c")
    case True
    with ac show ?thesis by (simp add: pos_Cons)
  next
    case False
    with Cons.prems(3) have "b \<in> set cs" by simp
    with Cons.IH rest a_in Cons.prems(4) have "pos cs b < pos cs a" by blast
    with ac False show ?thesis by (simp add: pos_Cons)
  qed
qed

lemma topo_ok_acyclic: "topo_ok cs \<Longrightarrow> acyclic (dep_rel cs)"
proof -
  assume t: "topo_ok cs"
  have "dep_rel cs \<subseteq> (measure (pos cs))\<inverse>"
    using topo_ok_pos [OF t] by (auto simp: dep_rel_def)
  moreover have "acyclic ((measure (pos cs))\<inverse>)"
    by (simp add: wf_acyclic)
  ultimately show ?thesis by (rule acyclic_subset [rotated])
qed

lemma pos_nth: "distinct cs \<Longrightarrow> i < length cs \<Longrightarrow> pos cs (cs ! i) = i"
proof (induction cs arbitrary: i)
  case Nil
  then show ?case by simp
next
  case (Cons c cs)
  show ?case
  proof (cases i)
    case 0
    then show ?thesis by (simp add: pos_Cons)
  next
    case (Suc k)
    with Cons.prems have "cs ! k \<noteq> c" "pos cs (cs ! k) = k"
      using Cons.IH [of k] by auto
    with Suc show ?thesis by (simp add: pos_Cons)
  qed
qed

lemma topo_ok_index:
  assumes "topo_ok cs" "distinct cs" "i < length cs" "j < length cs"
    "depends_on (cs ! i) (cs ! j)"
  shows "j < i"
  using topo_ok_pos [OF assms(1), of "cs ! i" "cs ! j"] assms
  by (simp add: pos_nth)

lemma app_topo_ok: "topo_ok app_cells"
  by (simp add: app_cells_def cell_defs depends_on_def)

lemma app_distinct: "distinct app_cells"
  by (simp add: app_cells_def cell_defs)

text \<open>
  C6. The dependency graph of the seven cells (an edge from a cell to every cell that
  returns one of its parameter names) has no cycle, and in the order of declaration
  every cell comes after every cell that produces one of its inputs.
\<close>

theorem app_graph_acyclic_and_ordered:
  "acyclic (dep_rel app_cells) \<and>
   (\<forall>i < length app_cells. \<forall>j < length app_cells.
      depends_on (app_cells ! i) (app_cells ! j) \<longrightarrow> j < i)"
  using topo_ok_acyclic [OF app_topo_ok] topo_ok_index [OF app_topo_ok app_distinct]
  by blast

theorem app_graph_acyclic_and_ordered_witness:
  "app_cells ! 3 = analysis_cell \<and> app_cells ! 2 = data_cell \<and>
   depends_on analysis_cell data_cell \<and> (2::nat) < 3 \<and>
   (data_cell, analysis_cell) \<notin> (dep_rel app_cells)\<^sup>+"
proof -
  have a: "app_cells ! 3 = analysis_cell" and d: "app_cells ! 2 = data_cell"
    by (simp_all add: app_cells_def)
  have dep: "depends_on analysis_cell data_cell"
    by (simp add: depends_on_def cell_defs)
  have edge: "(analysis_cell, data_cell) \<in> dep_rel app_cells"
    using dep by (simp add: dep_rel_def app_cells_def)
  from app_graph_acyclic_and_ordered have acyc: "acyclic (dep_rel app_cells)"
    and ord: "depends_on (app_cells ! 3) (app_cells ! 2) \<longrightarrow> (2::nat) < 3"
    by (simp_all add: app_cells_def)
  have "(data_cell, analysis_cell) \<notin> (dep_rel app_cells)\<^sup>+"
  proof
    assume "(data_cell, analysis_cell) \<in> (dep_rel app_cells)\<^sup>+"
    with edge have "(analysis_cell, analysis_cell) \<in> (dep_rel app_cells)\<^sup>+"
      by (rule trancl_into_trancl2)
    with acyc show False by (simp add: acyclic_def)
  qed
  with a d dep ord show ?thesis by simp
qed

section \<open>Output names\<close>

text \<open>
  C7. Each output name of the program is produced by exactly one cell: the returned names
  np, pd, plt, n, sigma, df, corr and fig are pairwise distinct across the cells.
\<close>

theorem app_outputs_unique:
  "outputs app_cells = [''np'', ''pd'', ''plt'', ''n'', ''sigma'', ''df'', ''corr'', ''fig''] \<and>
   distinct (outputs app_cells) \<and>
   (\<forall>x \<in> set (outputs app_cells). length (producers app_cells x) = 1)"
  by (simp add: outputs_def producers_def app_cells_def cell_defs)

theorem app_outputs_unique_witness:
  "''df'' \<in> set (outputs app_cells) \<and> producers app_cells ''df'' = [data_cell]"
proof -
  have "''df'' \<in> set (outputs app_cells)"
    by (simp add: outputs_def app_cells_def cell_defs)
  moreover from this app_outputs_unique have "length (producers app_cells ''df'') = 1"
    by blast
  moreover have "producers app_cells ''df'' = [data_cell]"
    by (simp add: producers_def app_cells_def cell_defs)
  ultimately show ?thesis by simp
qed

section \<open>The data cell\<close>

lemma map2_scalar_mul:
  "map2 (fadd fl) (scalar_mul fl a xs) es = map2 (\<lambda>x e. fadd fl (fmul fl a x) e) xs es"
  by (simp add: scalar_mul_def zip_map1 split_def)

lemma length_scalar_mul: "length (scalar_mul fl a xs) = length xs"
  by (simp add: scalar_mul_def)

lemma data_steps:
  assumes "getattr_value n = Inr nv" "py_int fl nv = Inr v"
    and "normal np (default_rng np 42) (float_lit fl 0) (float_lit fl 1) v = Inr (x, g1)"
    and "getattr_value sigma = Inr sv" "py_float fl sv = Inr sd"
    and "normal np g1 (float_lit fl 0) sd v = Inr (e, g2)"
    and "length x = length e"
  shows "data np fl n sigma w =
    (Inr (Frame [(''x'', x), (''y'', map2 (\<lambda>a b. fadd fl (fmul fl (float_lit fl 2) a) b) x e)]),
     w)"
  using assms
  by (simp add: data_def np_random_default_rng_def array_add_def DataFrame_def
      map2_scalar_mul length_scalar_mul)

lemma data_returns:
  assumes "normal_contract np ok" "ok (float_lit fl 1)"
    and "getattr_value n = Inr nv" "py_int fl nv = Inr v" "0 \<le> v"
    and "getattr_value sigma = Inr sv" "py_float fl sv = Inr sd" "ok sd"
  shows "\<exists>x e g1 g2.
    normal np (default_rng np 42) (float_lit fl 0) (float_lit fl 1) v = Inr (x, g1) \<and>
    normal np g1 (float_lit fl 0) sd v = Inr (e, g2) \<and>
    length x = nat v \<and> length e = nat v \<and>
    (\<forall>w. data np fl n sigma w =
      (Inr (Frame [(''x'', x), (''y'', map2 (\<lambda>a b. fadd fl (fmul fl (float_lit fl 2) a) b) x e)]),
       w))"
proof -
  from assms(1,2,5) obtain x g1 where
    d1: "normal np (default_rng np 42) (float_lit fl 0) (float_lit fl 1) v = Inr (x, g1)"
    and l1: "length x = nat v"
    unfolding normal_contract_def by blast
  from assms(1,5,8) obtain e g2 where
    d2: "normal np g1 (float_lit fl 0) sd v = Inr (e, g2)" and l2: "length e = nat v"
    unfolding normal_contract_def by blast
  from l1 l2 have "length x = length e" by simp
  from data_steps [OF assms(3,4) d1 assms(6,7) d2 this] d1 d2 l1 l2
  show ?thesis by blast
qed

lemma np_lcg_draws_length: "length (fst (lcg_draws g loc sc k)) = k"
  by (induction k arbitrary: g) (simp_all add: Let_def split_def)

lemma np_lcg_normal_contract: "normal_contract np_lcg (\<lambda>sc. \<not> negative sc)"
  unfolding normal_contract_def
proof (intro allI impI)
  fix g :: nat and loc sc :: "real option" and k :: int
  assume "0 \<le> k" "\<not> negative sc"
  then have "normal np_lcg g loc sc k = Inr (lcg_draws g loc sc (nat k))"
    by (simp add: np_lcg_def)
  then show "\<exists>xs g'. normal np_lcg g loc sc k = Inr (xs, g') \<and> length xs = nat k"
    using np_lcg_draws_length [of g loc sc "nat k"]
    by (cases "lcg_draws g loc sc (nat k)") auto
qed

lemma np_lcg_corrcoef_contract: "corrcoef_contract np_lcg"
  by (simp add: corrcoef_contract_def np_lcg_def corrcoef_exact_def)

lemma fl_exact_lits:
  "float_lit fl_exact 0 = Some 0" "float_lit fl_exact 1 = Some 1" "float_lit fl_exact 2 = Some 2"
  "\<not> negative (Some 1)" "\<not> negative (Some 5)"
  by (simp_all add: fl_exact_def negative_def)

text \<open>
  C2. For every slider value of n and every sigma numpy accepts as a scale, the data cell
  returns a data frame with the columns x and y of exactly int(n) rows: x is the first
  draw of the generator seeded with 42, and y is 2.0 * x plus the second draw, whose
  standard deviation is sigma. Every position of the n slider (50 to 2000) is a
  non-negative size.
\<close>

theorem data_frame_shape:
  assumes "normal_contract np ok" "ok (float_lit fl 1)"
    and "getattr_value n = Inr nv" "py_int fl nv = Inr v" "0 \<le> v"
    and "getattr_value sigma = Inr sv" "py_float fl sv = Inr sd" "ok sd"
  shows "\<exists>x e g1 g2 df.
    normal np (default_rng np 42) (float_lit fl 0) (float_lit fl 1) v = Inr (x, g1) \<and>
    normal np g1 (float_lit fl 0) sd v = Inr (e, g2) \<and>
    data np fl n sigma w = (Inr df, w) \<and>
    columns df = [(''x'', x),
                  (''y'', map2 (\<lambda>a b. fadd fl (fmul fl (float_lit fl 2) a) b) x e)] \<and>
    nrows df = nat v \<and> length x = nat v \<and>
    length (map2 (\<lambda>a b. fadd fl (fmul fl (float_lit fl 2) a) b) x e) = nat v"
proof -
  from data_returns [OF assms] obtain x e g1 g2 where
    d: "normal np (default_rng np 42) (float_lit fl 0) (float_lit fl 1) v = Inr (x, g1)"
      "normal np g1 (float_lit fl 0) sd v = Inr (e, g2)"
      "length x = nat v" "length e = nat v"
      "data np fl n sigma w =
        (Inr (Frame [(''x'', x),
                     (''y'', map2 (\<lambda>a b. fadd fl (fmul fl (float_lit fl 2) a) b) x e)]), w)"
    by blast
  let ?df = "Frame [(''x'', x),
                    (''y'', map2 (\<lambda>a b. fadd fl (fmul fl (float_lit fl 2) a) b) x e)]"
  from d(3,4) have "nrows ?df = nat v"
    "length (map2 (\<lambda>a b. fadd fl (fmul fl (float_lit fl 2) a) b) x e) = nat v"
    by (simp_all add: nrows_def)
  with d show ?thesis by auto
qed

theorem data_frame_shape_witness:
  "\<exists>x e df.
     data np_lcg fl_exact (PySlider (fst (widgets fl_exact))) (PySlider (snd (widgets fl_exact)))
       (0::nat) = (Inr df, 0) \<and>
     columns df = [(''x'', x), (''y'', map2 (\<lambda>a b. fadd fl_exact (fmul fl_exact (Some 2) a) b) x e)] \<and>
     nrows df = 500 \<and> length x = 500 \<and>
     length (map2 (\<lambda>a b. fadd fl_exact (fmul fl_exact (Some 2) a) b) x e) = 500"
proof -
  have "\<exists>x e g1 g2 df.
    normal np_lcg (default_rng np_lcg 42) (float_lit fl_exact 0) (float_lit fl_exact 1) 500 = Inr (x, g1) \<and>
    normal np_lcg g1 (float_lit fl_exact 0) (Some 1) 500 = Inr (e, g2) \<and>
    data np_lcg fl_exact (PySlider (fst (widgets fl_exact))) (PySlider (snd (widgets fl_exact)))
      (0::nat) = (Inr df, 0) \<and>
    columns df = [(''x'', x),
                  (''y'', map2 (\<lambda>a b. fadd fl_exact (fmul fl_exact (float_lit fl_exact 2) a) b) x e)] \<and>
    nrows df = nat 500 \<and> length x = nat 500 \<and>
    length (map2 (\<lambda>a b. fadd fl_exact (fmul fl_exact (float_lit fl_exact 2) a) b) x e) = nat 500"
    by (rule data_frame_shape [OF np_lcg_normal_contract,
          where nv = "PyInt 500" and sv = "PyFloat (Some 1)"])
       (simp_all add: widgets_def getattr_value_def py_int_def py_float_def fl_exact_lits)
  then show ?thesis by (simp add: fl_exact_lits) blast
qed

section \<open>The analysis cell\<close>

lemma analysis_steps:
  assumes "getitem df ''x'' = Inr xs" "getitem df ''y'' = Inr ys"
    and "corrcoef np xs ys = Inr [[a, b], [c, d]]"
  shows "analysis np df = Inr b"
  using assms by (simp add: analysis_def index2_def)

lemma dev_prod_short: "length xs \<le> 1 \<Longrightarrow> dev_prod xs ys = 0"
proof (cases xs)
  case Nil
  then show ?thesis by (simp add: dev_prod_def)
next
  case (Cons x xs')
  assume "length xs \<le> 1"
  with Cons have "xs = [x]" by simp
  then show ?thesis by (cases ys) (simp_all add: dev_prod_def mean_def)
qed

lemma corr_entry_pearson:
  assumes "length xs = length ys"
  shows "corr_entry xs ys = pearson xs ys"
proof (cases "length xs \<le> 1")
  case True
  then show ?thesis
    by (simp add: corr_entry_def cov_entry_def pearson_def dev_prod_short)
next
  case False
  define k where "k = real (length xs) - 1"
  from False have k: "0 < k" by (simp add: k_def)
  let ?a = "dev_prod xs xs" and ?b = "dev_prod ys ys" and ?c = "dev_prod xs ys"
  have prod: "(?a / k) * (?b / k) = (?a * ?b) / (k * k)" by simp
  have zero: "(?a / k) * (?b / k) = 0 \<longleftrightarrow> ?a * ?b = 0"
    using k by simp
  from prod have "sqrt ((?a / k) * (?b / k)) = sqrt (?a * ?b) / k"
    using k by (simp add: real_sqrt_divide real_sqrt_mult)
  with k have ratio: "(?c / k) / sqrt ((?a / k) * (?b / k)) = ?c / sqrt (?a * ?b)"
    by simp
  from False assms have "corr_entry xs ys =
      (if (?a / k) * (?b / k) = 0 then None
       else Some ((?c / k) / sqrt ((?a / k) * (?b / k))))"
    by (simp add: corr_entry_def cov_entry_def k_def)
  also have "\<dots> = pearson xs ys"
    unfolding pearson_def zero ratio ..
  finally show ?thesis .
qed

lemma length_all_defined: "all_defined xs = Some a \<Longrightarrow> length a = length xs"
  by (induction xs arbitrary: a) (auto split: option.splits)

lemma corr_of_pearson_of:
  assumes "length xs = length ys"
  shows "corr_of xs ys = pearson_of xs ys"
  using assms
  by (auto simp: corr_of_def pearson_of_def corr_entry_pearson length_all_defined
      split: option.splits)

text \<open>
  C3. For every data frame with columns x and y the analysis cell returns, as a float,
  the Pearson correlation coefficient of df["x"] and df["y"]: the entry in row 0 and
  column 1 of the correlation matrix of np.corrcoef. np.corrcoef is taken in exact
  arithmetic, as its documentation defines it; the coefficient is nan where Pearson's
  is undefined. The columns of a data frame have the same length.
\<close>

theorem analysis_returns_pearson:
  assumes "corrcoef np = corrcoef_exact"
    and "getitem df ''x'' = Inr xs" "getitem df ''y'' = Inr ys" "length xs = length ys"
  shows "analysis np df = Inr (pearson_of xs ys)"
proof -
  from assms(1,4) have "corrcoef np xs ys
      = Inr [[corr_of xs xs, corr_of xs ys], [corr_of ys xs, corr_of ys ys]]"
    by (simp add: corrcoef_exact_def)
  from analysis_steps [OF assms(2,3) this] corr_of_pearson_of [OF assms(4)]
  show ?thesis by simp
qed

theorem analysis_returns_pearson_witness:
  "analysis np_lcg (Frame [(''x'', [Some 1, Some 2, Some 3]), (''y'', [Some 2, Some 3, Some 7])])
     = Inr (Some (5 / sqrt 28)) \<and>
   analysis np_lcg (Frame [(''x'', [Some 1, Some 1, Some 1]), (''y'', [Some 2, Some 3, Some 7])])
     = Inr None"
proof -
  have "analysis np_lcg
      (Frame [(''x'', [Some 1, Some 1, Some 1]), (''y'', [Some 2, Some 3, Some 7])])
      = Inr (pearson_of [Some 1, Some 1, Some 1] [Some 2, Some 3, Some 7])"
    by (rule analysis_returns_pearson) (simp_all add: np_lcg_def getitem_def)
  also have "pearson_of [Some 1, Some 1, Some 1] [Some 2, Some 3, Some 7] = None"
    by (simp add: pearson_of_def pearson_def dev_prod_def mean_def)
  finally have flat: "analysis np_lcg
      (Frame [(''x'', [Some 1, Some 1, Some 1]), (''y'', [Some 2, Some 3, Some 7])]) = Inr None" .
  have "analysis np_lcg
      (Frame [(''x'', [Some 1, Some 2, Some 3]), (''y'', [Some 2, Some 3, Some 7])])
      = Inr (pearson_of [Some 1, Some 2, Some 3] [Some 2, Some 3, Some 7])"
    by (rule analysis_returns_pearson) (simp_all add: np_lcg_def getitem_def)
  also have "pearson_of [Some 1, Some 2, Some 3] [Some 2, Some 3, Some 7] = Some (5 / sqrt 28)"
    by (simp add: pearson_of_def pearson_def dev_prod_def mean_def)
  finally show ?thesis using flat by simp
qed

section \<open>Running the cells again\<close>

lemma run_twice:
  assumes "\<forall>w. data np fl (g_n s) (g_sigma s) w = (Inr df, w)" "analysis np df = Inr c"
  shows "run_data_analysis np fl s w = (Inr (s\<lparr>g_df := Some df, g_corr := Some c\<rparr>), w)"
    and "run_data_analysis np fl (s\<lparr>g_df := Some df, g_corr := Some c\<rparr>) w'
           = (Inr (s\<lparr>g_df := Some df, g_corr := Some c\<rparr>), w')"
  using assms by (simp_all add: run_data_analysis_def run_data_def run_analysis_def)

lemma getitem_xy:
  "getitem (Frame [(''x'', x), (''y'', y)]) ''x'' = Inr x"
  "getitem (Frame [(''x'', x), (''y'', y)]) ''y'' = Inr y"
  by (simp_all add: getitem_def)

text \<open>
  A generator made without a seed depends on the entropy source: two calls of
  \<^verbatim>\<open>default_rng()\<close> give different generators in the instance, two calls of
  \<^verbatim>\<open>default_rng(42)\<close> the same one.
\<close>

lemma unseeded_generator_varies:
  "fst (np_random_default_rng np_lcg None 0) \<noteq> fst (np_random_default_rng np_lcg None 1)"
  "np_random_default_rng np_lcg (Some 42) 0 = (42, 0)"
  "np_random_default_rng np_lcg (Some 42) 1 = (42, 1)"
  by (simp_all add: np_random_default_rng_def np_lcg_def)

text \<open>
  C1. With the sliders at n = 500 and sigma = 1.0, running the data cell and then the
  analysis cell binds df and corr, and running both again with no input changed binds
  the same df and the same corr, whatever has happened to the entropy source in between:
  the data cell builds its generator from the fixed seed 42 on every run, so it never
  reads the entropy source, and it reads nothing a previous run has written.
\<close>

theorem rerun_idempotent:
  assumes "normal_contract np ok" "ok (float_lit fl 1)" "corrcoef_contract np"
    and "g_n s = PySlider (fst (widgets fl))" "g_sigma s = PySlider (snd (widgets fl))"
  shows "\<exists>df c. \<forall>w w'.
    run_data_analysis np fl s w = (Inr (s\<lparr>g_df := Some df, g_corr := Some c\<rparr>), w) \<and>
    run_data_analysis np fl (s\<lparr>g_df := Some df, g_corr := Some c\<rparr>) w'
      = (Inr (s\<lparr>g_df := Some df, g_corr := Some c\<rparr>), w')"
proof -
  have n: "getattr_value (g_n s) = Inr (PyInt 500)" "py_int fl (PyInt 500) = Inr 500"
    and sg: "getattr_value (g_sigma s) = Inr (PyFloat (float_lit fl 1))"
      "py_float fl (PyFloat (float_lit fl 1)) = Inr (float_lit fl 1)"
    using assms(4,5) by (simp_all add: widgets_def getattr_value_def py_int_def py_float_def)
  from data_returns [OF assms(1,2) n _ sg assms(2)]
  obtain x e where len: "length x = nat 500" "length e = nat 500"
    and d: "\<forall>w. data np fl (g_n s) (g_sigma s) w =
      (Inr (Frame [(''x'', x), (''y'', map2 (\<lambda>a b. fadd fl (fmul fl (float_lit fl 2) a) b) x e)]), w)"
    by auto
  let ?y = "map2 (\<lambda>a b. fadd fl (fmul fl (float_lit fl 2) a) b) x e"
  let ?df = "Frame [(''x'', x), (''y'', ?y)]"
  from len have "length x = length ?y" by simp
  with assms(3) obtain a b c' d' where "corrcoef np x ?y = Inr [[a, b], [c', d']]"
    unfolding corrcoef_contract_def by blast
  then have "analysis np ?df = Inr b"
    by (rule analysis_steps [OF getitem_xy])
  from run_twice [OF d this] show ?thesis by blast
qed

theorem rerun_idempotent_witness:
  "\<exists>df c.
    run_data_analysis np_lcg fl_exact
      \<lparr>g_n = PySlider (fst (widgets fl_exact)), g_sigma = PySlider (snd (widgets fl_exact)),
       g_df = None, g_corr = None\<rparr> (0::nat)
    = (Inr \<lparr>g_n = PySlider (fst (widgets fl_exact)), g_sigma = PySlider (snd (widgets fl_exact)),
       g_df = Some df, g_corr = Some c\<rparr>, 0) \<and>
    run_data_analysis np_lcg fl_exact
      \<lparr>g_n = PySlider (fst (widgets fl_exact)), g_sigma = PySlider (snd (widgets fl_exact)),
       g_df = Some df, g_corr = Some c\<rparr> (7::nat)
    = (Inr \<lparr>g_n = PySlider (fst (widgets fl_exact)), g_sigma = PySlider (snd (widgets fl_exact)),
       g_df = Some df, g_corr = Some c\<rparr>, 7)"
proof -
  have ok: "\<not> negative (float_lit fl_exact 1)" by (simp add: fl_exact_lits)
  from rerun_idempotent [OF np_lcg_normal_contract ok np_lcg_corrcoef_contract,
    of "\<lparr>g_n = PySlider (fst (widgets fl_exact)), g_sigma = PySlider (snd (widgets fl_exact)),
       g_df = None, g_corr = None\<rparr>"]
  obtain df c where "\<forall>w w'.
    run_data_analysis np_lcg fl_exact
      \<lparr>g_n = PySlider (fst (widgets fl_exact)), g_sigma = PySlider (snd (widgets fl_exact)),
       g_df = None, g_corr = None\<rparr> w
    = (Inr \<lparr>g_n = PySlider (fst (widgets fl_exact)), g_sigma = PySlider (snd (widgets fl_exact)),
       g_df = Some df, g_corr = Some c\<rparr>, w) \<and>
    run_data_analysis np_lcg fl_exact
      \<lparr>g_n = PySlider (fst (widgets fl_exact)), g_sigma = PySlider (snd (widgets fl_exact)),
       g_df = Some df, g_corr = Some c\<rparr> w'
    = (Inr \<lparr>g_n = PySlider (fst (widgets fl_exact)), g_sigma = PySlider (snd (widgets fl_exact)),
       g_df = Some df, g_corr = Some c\<rparr>, w')"
    by auto
  then show ?thesis by blast
qed

section \<open>The x column and sigma\<close>

text \<open>
  C9. The x column of the data cell does not depend on sigma: for a fixed n and any two
  sigma values the cell returns frames with the same x column, the first draw of the
  generator seeded with 42, made before sigma is read.
\<close>

theorem x_column_independent_of_sigma:
  assumes "normal_contract np ok" "ok (float_lit fl 1)"
    and "getattr_value n = Inr nv" "py_int fl nv = Inr v" "0 \<le> v"
    and "getattr_value sigma1 = Inr sv1" "py_float fl sv1 = Inr sd1" "ok sd1"
    and "getattr_value sigma2 = Inr sv2" "py_float fl sv2 = Inr sd2" "ok sd2"
  shows "\<exists>x g1 d1 d2.
    normal np (default_rng np 42) (float_lit fl 0) (float_lit fl 1) v = Inr (x, g1) \<and>
    data np fl n sigma1 w = (Inr d1, w) \<and> data np fl n sigma2 w = (Inr d2, w) \<and>
    getitem d1 ''x'' = Inr x \<and> getitem d2 ''x'' = Inr x"
proof -
  from data_returns [OF assms(1-8)] obtain x g1 e1 where
    x: "normal np (default_rng np 42) (float_lit fl 0) (float_lit fl 1) v = Inr (x, g1)"
    and d1: "data np fl n sigma1 w =
      (Inr (Frame [(''x'', x), (''y'', map2 (\<lambda>a b. fadd fl (fmul fl (float_lit fl 2) a) b) x e1)]), w)"
    by blast
  from data_returns [OF assms(1-5) assms(9-11)] x obtain e2 where
    d2: "data np fl n sigma2 w =
      (Inr (Frame [(''x'', x), (''y'', map2 (\<lambda>a b. fadd fl (fmul fl (float_lit fl 2) a) b) x e2)]), w)"
    by auto
  from x d1 d2 getitem_xy(1) show ?thesis by metis
qed

theorem x_column_independent_of_sigma_witness:
  "\<exists>x g1 d1 d2.
    normal np_lcg (default_rng np_lcg 42) (Some 0) (Some 1) 500 = Inr (x, g1) \<and>
    data np_lcg fl_exact (PySlider (fst (widgets fl_exact))) (PySlider (snd (widgets fl_exact)))
      (0::nat) = (Inr d1, 0) \<and>
    data np_lcg fl_exact (PySlider (fst (widgets fl_exact)))
      (PySlider (Slider (PyFloat (Some (1 / 10))) (PyFloat (Some 5)) (PyFloat (Some (1 / 10)))
         (PyFloat (Some 5)) ''Noise'')) (0::nat) = (Inr d2, 0) \<and>
    getitem d1 ''x'' = Inr x \<and> getitem d2 ''x'' = Inr x"
proof -
  have "\<exists>x g1 d1 d2.
    normal np_lcg (default_rng np_lcg 42) (float_lit fl_exact 0) (float_lit fl_exact 1) 500
      = Inr (x, g1) \<and>
    data np_lcg fl_exact (PySlider (fst (widgets fl_exact))) (PySlider (snd (widgets fl_exact)))
      (0::nat) = (Inr d1, 0) \<and>
    data np_lcg fl_exact (PySlider (fst (widgets fl_exact)))
      (PySlider (Slider (PyFloat (Some (1 / 10))) (PyFloat (Some 5)) (PyFloat (Some (1 / 10)))
         (PyFloat (Some 5)) ''Noise'')) (0::nat) = (Inr d2, 0) \<and>
    getitem d1 ''x'' = Inr x \<and> getitem d2 ''x'' = Inr x"
    by (rule x_column_independent_of_sigma [OF np_lcg_normal_contract,
          where nv = "PyInt 500" and ?sv1.0 = "PyFloat (Some 1)" and ?sv2.0 = "PyFloat (Some 5)"
            and ?sd1.0 = "Some 1" and ?sd2.0 = "Some 5"])
       (simp_all add: widgets_def getattr_value_def py_int_def py_float_def fl_exact_lits)
  then show ?thesis by (simp add: fl_exact_lits)
qed

section \<open>The seed of the generator\<close>

lemma data_reads_seed_42:
  assumes "default_rng np' 42 = default_rng np 42" "normal np' = normal np"
  shows "data np' fl n sigma w = data np fl n sigma w"
  unfolding data_def np_random_default_rng_def option.case assms ..

text \<open>
  C5, as the code has it. The data cell takes the inputs np, pd, n and sigma and no
  seed; its generator is always built from the constant 42: whatever
  \<^verbatim>\<open>default_rng\<close> does at other seeds has no effect on the cell.
\<close>

theorem data_seed_is_constant_42:
  "params data_cell = [''np'', ''pd'', ''n'', ''sigma''] \<and>
   data (np\<lparr>default_rng := f\<rparr>) fl n sigma w
     = data (np\<lparr>default_rng := \<lambda>seed. f 42\<rparr>) fl n sigma w"
  by (simp add: data_cell_def data_reads_seed_42)

text \<open>
  The claim that the seed is supplied by the caller fails: called with the two sliders
  of the program and a numpy whose samples show the generator's seed, every sample of
  the x column is 42, a number no argument of the call contains.
\<close>

theorem data_seed_counterexample:
  "params data_cell = [''np'', ''pd'', ''n'', ''sigma''] \<and>
   data np_probe fl_exact (PySlider (fst (widgets fl_exact))) (PySlider (snd (widgets fl_exact)))
     (0::nat)
     = (Inr (Frame [(''x'', replicate 500 (Some 42)), (''y'', replicate 500 (Some 126))]), 0)"
  by (simp add: data_cell_def data_def np_random_default_rng_def np_probe_def fl_exact_def
      negative_def lift2_def widgets_def getattr_value_def py_int_def py_float_def
      scalar_mul_def array_add_def DataFrame_def)

section \<open>The summary cell\<close>







section \<open>One step of the evaluator\<close>

lemma run_cell_status_other:
  "nm \<noteq> cname c \<Longrightarrow> status (run_cell cs f c st) nm = status st nm"
  by (simp add: run_cell_def Let_def split: option.splits sum.splits)

lemma run_cell_status_self:
  "status (run_cell cs f c st) (cname c) =
     (if upstream_failed cs st c then Errored
      else case resolve_all st (params c) of
             None \<Rightarrow> Errored
           | Some args \<Rightarrow>
               (case f (cname c) args of
                  Inl e \<Rightarrow> Errored
                | Inr outs \<Rightarrow> if length outs \<noteq> length (returns c) then Errored else Fresh))"
  by (simp add: run_cell_def Let_def split: option.splits sum.splits)

lemma run_cell_not_stale: "status (run_cell cs f c st) (cname c) \<noteq> Stale"
  by (simp add: run_cell_status_self split: option.splits sum.splits)

lemma run_cell_visited: "visited (run_cell cs f c st) = visited st @ [cname c]"
  by (simp add: run_cell_def Let_def split: option.splits sum.splits)

lemma run_cell_vcells: "vcells (run_cell cs f c st) = vcells st"
  by (simp add: run_cell_def Let_def split: option.splits sum.splits)

lemma map_of_zip_outside: "x \<notin> set xs \<Longrightarrow> map_of (zip xs ys) x = None"
  by (metis map_of_eq_None_iff set_zip_leftD imageE surjective_pairing)

lemma run_cell_cache_other:
  "x \<notin> set (returns c) \<Longrightarrow> cache (run_cell cs f c st) x = cache st x"
  by (simp add: run_cell_def Let_def map_add_def map_of_zip_outside
      split: option.splits sum.splits)

lemma run_cell_cache_kept:
  "cache st x \<noteq> None \<Longrightarrow> cache (run_cell cs f c st) x \<noteq> None"
  by (auto simp: run_cell_def Let_def map_add_def split: option.splits sum.splits)

lemma run_cell_cache_self:
  assumes "status (run_cell cs f c st) (cname c) = Fresh" "r \<in> set (returns c)"
  shows "cache (run_cell cs f c st) r \<noteq> None"
proof -
  from assms(1) obtain args outs where a: "\<not> upstream_failed cs st c"
    "resolve_all st (params c) = Some args" "f (cname c) args = Inr outs"
    "length outs = length (returns c)"
    by (auto simp: run_cell_status_self split: if_splits option.splits sum.splits)
  from a(4) assms(2) have "r \<in> dom (map_of (zip (returns c) outs))"
    by simp
  then obtain v where "map_of (zip (returns c) outs) r = Some v" by blast
  with a show ?thesis
    by (simp add: run_cell_def Let_def map_add_def)
qed

subsection \<open>The walk leaves the other cells alone\<close>

lemma eval_walk_status_frame:
  assumes "\<forall>c \<in> set rest. status st (cname c) = Stale \<longrightarrow> nm \<noteq> cname c"
  shows "status (eval_walk cs f rest st) nm = status st nm"
  using assms
proof (induction rest arbitrary: st)
  case Nil
  then show ?case by simp
next
  case (Cons c rest)
  let ?st' = "if status st (cname c) = Stale then run_cell cs f c st else st"
  have here: "status ?st' nm = status st nm"
    using Cons.prems by (simp add: run_cell_status_other)
  have "\<forall>d \<in> set rest. status ?st' (cname d) = Stale \<longrightarrow> nm \<noteq> cname d"
  proof (intro ballI impI)
    fix d assume d: "d \<in> set rest" and s: "status ?st' (cname d) = Stale"
    show "nm \<noteq> cname d"
    proof (cases "status st (cname c) = Stale \<and> cname d = cname c")
      case True
      with s show ?thesis by (simp add: run_cell_not_stale)
    next
      case False
      with s have "status st (cname d) = Stale"
        by (auto simp: run_cell_status_other split: if_splits)
      with Cons.prems d show ?thesis by simp
    qed
  qed
  from Cons.IH [OF this] here show ?case by simp
qed

lemma eval_walk_cache_frame:
  assumes "\<forall>c \<in> set rest. status st (cname c) = Stale \<longrightarrow> x \<notin> set (returns c)"
  shows "cache (eval_walk cs f rest st) x = cache st x"
  using assms
proof (induction rest arbitrary: st)
  case Nil
  then show ?case by simp
next
  case (Cons c rest)
  let ?st' = "if status st (cname c) = Stale then run_cell cs f c st else st"
  have here: "cache ?st' x = cache st x"
    using Cons.prems by (simp add: run_cell_cache_other)
  have "\<forall>d \<in> set rest. status ?st' (cname d) = Stale \<longrightarrow> x \<notin> set (returns d)"
  proof (intro ballI impI)
    fix d assume d: "d \<in> set rest" and s: "status ?st' (cname d) = Stale"
    show "x \<notin> set (returns d)"
    proof (cases "status st (cname c) = Stale \<and> cname d = cname c")
      case True
      with s show ?thesis by (simp add: run_cell_not_stale)
    next
      case False
      with s have "status st (cname d) = Stale"
        by (auto simp: run_cell_status_other split: if_splits)
      with Cons.prems d show ?thesis by simp
    qed
  qed
  from Cons.IH [OF this] here show ?case by simp
qed

lemma eval_walk_vcells: "vcells (eval_walk cs f rest st) = vcells st"
  by (induction rest arbitrary: st) (simp_all add: run_cell_vcells)

lemma eval_walk_visited:
  assumes "distinct (map cname rest)"
  shows "visited (eval_walk cs f rest st)
    = visited st @ map cname (filter (\<lambda>c. status st (cname c) = Stale) rest)"
  using assms
proof (induction rest arbitrary: st)
  case Nil
  then show ?case by simp
next
  case (Cons c rest)
  let ?st' = "if status st (cname c) = Stale then run_cell cs f c st else st"
  from Cons.prems have "\<forall>d \<in> set rest. cname d \<noteq> cname c"
    by (auto simp: image_iff)
  then have same: "\<forall>d \<in> set rest. status ?st' (cname d) = status st (cname d)"
    by (simp add: run_cell_status_other)
  have "filter (\<lambda>d. status ?st' (cname d) = Stale) rest
      = filter (\<lambda>d. status st (cname d) = Stale) rest"
    by (rule filter_cong) (use same in auto)
  moreover from Cons.prems have "distinct (map cname rest)" by simp
  ultimately have "visited (eval_walk cs f rest ?st')
      = visited ?st' @ map cname (filter (\<lambda>d. status st (cname d) = Stale) rest)"
    using Cons.IH [of ?st'] by simp
  then show ?case by (simp add: run_cell_visited)
qed

section \<open>A change of sigma\<close>

lemma affected_sigma:
  "affected app_cells [''sigma''] = [''data'', ''analysis'', ''summary'', ''plot'', ''preview'']"
  by (simp add: app_cells_def cell_defs)

lemma app_names_distinct: "distinct (map cname app_cells)"
  by (simp add: app_cells_def cell_defs)

lemma eval_walk_none_stale:
  "\<forall>c \<in> set rest. status st (cname c) \<noteq> Stale \<Longrightarrow> eval_walk cs f rest st = st"
  by (induction rest) simp_all

lemma affected_only_n:
  assumes "\<forall>c \<in> set extra. only_n c" "''n'' \<notin> set changed"
  shows "affected extra changed = []"
  using assms
proof (induction extra arbitrary: changed)
  case Nil
  then show ?case by simp
next
  case (Cons c extra)
  from Cons.prems have "\<not> list_ex (\<lambda>p. p \<in> set changed) (params c)"
    by (auto simp: only_n_def list_ex_iff list_all_iff)
  with Cons show ?case by simp
qed

lemma affected_scenario:
  assumes "\<forall>c \<in> set extra. only_n c"
  shows "affected (scenario extra) [''sigma''] = [''data'', ''analysis'']"
  using affected_only_n [OF assms, of "[''sigma'', ''df'', ''corr'']"]
  by (simp add: scenario_def cell_defs)


lemma not_upstream_failed:
  "\<forall>d \<in> set cs. status st (cname d) \<noteq> Errored \<Longrightarrow> \<not> upstream_failed cs st c"
  by (auto simp: upstream_failed_def list_ex_iff)

lemma run_cell_fresh:
  assumes "\<not> upstream_failed cs st c" "resolve_all st (params c) = Some args"
    and "f (cname c) args = Inr outs" "length outs = length (returns c)"
  shows "run_cell cs f c st =
    st\<lparr>status := (status st)(cname c := Fresh), visited := visited st @ [cname c],
       cache := cache st ++ map_of (zip (returns c) outs)\<rparr>"
  using assms by (simp add: run_cell_def Let_def)

text \<open>
  C4. In the scenario of the specification (the value cells n and sigma, the data cell,
  the analysis cell, and any cells depending solely on n), a change of sigma alone
  recomputes data and analysis only: after notify(["sigma"]), evaluate() works on data
  and then analysis and on no other cell; when their compute functions return, df and
  corr hold the values computed from the current inputs and both cells are fresh; every
  cell depending solely on n keeps its state and its cached outputs.
\<close>

theorem sigma_change_recomputes_data_and_analysis:
  assumes extra: "\<forall>c \<in> set extra. only_n c"
    and names: "distinct (map cname (scenario extra))"
    and outs: "distinct (outputs (scenario extra))"
    and fresh: "\<forall>c \<in> set (scenario extra). status st (cname c) = Fresh"
    and vals: "vcells st ''np'' = Some vnp" "vcells st ''pd'' = Some vpd"
      "vcells st ''n'' = Some vn" "vcells st ''sigma'' = Some vs" "vcells st ''df'' = None"
  shows "visited (evaluate (scenario extra) compute (notify (scenario extra) [''sigma''] st))
           = [''data'', ''analysis''] \<and>
    (\<forall>c \<in> set extra.
       status (evaluate (scenario extra) compute (notify (scenario extra) [''sigma''] st)) (cname c)
         = status st (cname c) \<and>
       (\<forall>r \<in> set (returns c).
          cache (evaluate (scenario extra) compute (notify (scenario extra) [''sigma''] st)) r
            = cache st r)) \<and>
    (\<forall>d. compute ''data'' [vnp, vpd, vn, vs] = Inr [d] \<longrightarrow>
       status (evaluate (scenario extra) compute (notify (scenario extra) [''sigma''] st)) ''data''
         = Fresh \<and>
       cache (evaluate (scenario extra) compute (notify (scenario extra) [''sigma''] st)) ''df''
         = Some d \<and>
       (\<forall>c. compute ''analysis'' [vnp, d] = Inr [c] \<longrightarrow>
          status (evaluate (scenario extra) compute (notify (scenario extra) [''sigma''] st))
            ''analysis'' = Fresh \<and>
          cache (evaluate (scenario extra) compute (notify (scenario extra) [''sigma''] st))
            ''corr'' = Some c))"
proof -
  let ?cs = "scenario extra"
  let ?st1 = "notify ?cs [''sigma''] st\<lparr>visited := []\<rparr>"
  let ?st2 = "run_cell ?cs compute data_cell ?st1"
  let ?st3 = "run_cell ?cs compute analysis_cell ?st2"
  have st1: "status ?st1 = (\<lambda>nm. if nm \<in> set [''data'', ''analysis''] then Stale else status st nm)"
    "cache ?st1 = cache st" "vcells ?st1 = vcells st" "visited ?st1 = []"
    by (simp_all add: notify_def affected_scenario [OF extra])
  have cn: "cname data_cell = ''data''" "cname analysis_cell = ''analysis''"
    "returns data_cell = [''df'']" "returns analysis_cell = [''corr'']"
    "params data_cell = [''np'', ''pd'', ''n'', ''sigma'']" "params analysis_cell = [''np'', ''df'']"
    by (simp_all add: cell_defs)
  have xn: "cname c \<noteq> ''data'' \<and> cname c \<noteq> ''analysis''" if "c \<in> set extra" for c
    using names that by (auto simp: scenario_def cn image_iff)
  have xo: "r \<noteq> ''df'' \<and> r \<noteq> ''corr''" if "c \<in> set extra" "r \<in> set (returns c)" for c r
    using outs that by (auto simp: scenario_def outputs_def cn)
  have xfresh: "status st (cname c) = Fresh" if "c \<in> set extra" for c
    using fresh that by (simp add: scenario_def)
  have s2: "status ?st2 nm = status ?st1 nm" if "nm \<noteq> ''data''" for nm
    using that run_cell_status_other [of nm data_cell ?cs compute ?st1] by (simp add: cn)
  have s3: "status ?st3 nm = status ?st2 nm" if "nm \<noteq> ''analysis''" for nm
    using that run_cell_status_other [of nm analysis_cell ?cs compute ?st2] by (simp add: cn)
  have rest: "\<forall>c \<in> set extra. status ?st3 (cname c) \<noteq> Stale"
  proof
    fix c assume c: "c \<in> set extra"
    from xn [OF c] have "status ?st3 (cname c) = status ?st1 (cname c)"
      by (simp add: s2 s3)
    with xn [OF c] xfresh [OF c] show "status ?st3 (cname c) \<noteq> Stale"
      by (simp add: st1)
  qed
  have ev: "evaluate ?cs compute (notify ?cs [''sigma''] st) = ?st3"
  proof -
    have a: "status ?st1 (cname data_cell) = Stale" by (simp add: st1 cn)
    have b: "status ?st2 (cname analysis_cell) = Stale" by (simp add: s2 st1 cn)
    have "evaluate ?cs compute (notify ?cs [''sigma''] st)
        = eval_walk ?cs compute (data_cell # analysis_cell # extra) ?st1"
      by (simp add: evaluate_def scenario_def)
    also have "\<dots> = eval_walk ?cs compute extra ?st3"
      using a b by simp
    also have "\<dots> = ?st3"
      by (rule eval_walk_none_stale [OF rest])
    finally show ?thesis .
  qed
  have v: "visited ?st3 = [''data'', ''analysis'']"
    by (simp add: run_cell_visited st1 cn)
  have fr: "status ?st3 (cname c) = status st (cname c) \<and>
      (\<forall>r \<in> set (returns c). cache ?st3 r = cache st r)" if c: "c \<in> set extra" for c
  proof -
    from xn [OF c] have "status ?st3 (cname c) = status st (cname c)"
      by (simp add: s2 s3 st1)
    moreover have "cache ?st3 r = cache st r" if r: "r \<in> set (returns c)" for r
    proof -
      from xo [OF c r] have "r \<notin> set (returns analysis_cell)" "r \<notin> set (returns data_cell)"
        by (simp_all add: cn)
      then show ?thesis
        by (simp add: run_cell_cache_other st1)
    qed
    ultimately show ?thesis by blast
  qed
  have ok: "status ?st3 ''data'' = Fresh \<and> cache ?st3 ''df'' = Some d \<and>
      (\<forall>c. compute ''analysis'' [vnp, d] = Inr [c] \<longrightarrow>
         status ?st3 ''analysis'' = Fresh \<and> cache ?st3 ''corr'' = Some c)"
    if d: "compute ''data'' [vnp, vpd, vn, vs] = Inr [d]" for d
  proof -
    have ne1: "\<forall>c \<in> set ?cs. status ?st1 (cname c) \<noteq> Errored"
      using fresh by (auto simp: st1)
    have r1: "resolve_all ?st1 (params data_cell) = Some [vnp, vpd, vn, vs]"
      using vals by (simp add: cn resolve_def st1)
    have st2: "?st2 = ?st1\<lparr>status := (status ?st1)(''data'' := Fresh),
        visited := visited ?st1 @ [''data''], cache := (cache ?st1)(''df'' \<mapsto> d)\<rparr>"
      using run_cell_fresh [OF not_upstream_failed [OF ne1] r1, of compute "[d]"] d
      by (simp add: cn)
    then have c2: "status ?st2 ''data'' = Fresh" "cache ?st2 ''df'' = Some d"
      by simp_all
    have v2: "vcells ?st2 = vcells st"
      by (simp add: run_cell_vcells st1)
    have data3: "status ?st3 ''data'' = Fresh"
      using c2 by (simp add: s3)
    have df3: "cache ?st3 ''df'' = Some d"
      using c2 run_cell_cache_other [of "''df''" analysis_cell ?cs compute ?st2]
      by (simp add: cn)
    have an: "status ?st3 ''analysis'' = Fresh \<and> cache ?st3 ''corr'' = Some c"
      if c: "compute ''analysis'' [vnp, d] = Inr [c]" for c
    proof -
      have ne2: "\<forall>e \<in> set ?cs. status ?st2 (cname e) \<noteq> Errored"
      proof
        fix e assume e: "e \<in> set ?cs"
        show "status ?st2 (cname e) \<noteq> Errored"
        proof (cases "cname e = ''data''")
          case True
          with c2 show ?thesis by simp
        next
          case False
          with ne1 e show ?thesis by (simp add: s2)
        qed
      qed
      have r2: "resolve_all ?st2 (params analysis_cell) = Some [vnp, d]"
        using vals c2 v2 by (simp add: cn resolve_def)
      have "?st3 = ?st2\<lparr>status := (status ?st2)(''analysis'' := Fresh),
          visited := visited ?st2 @ [''analysis''], cache := (cache ?st2)(''corr'' \<mapsto> c)\<rparr>"
        using run_cell_fresh [OF not_upstream_failed [OF ne2] r2, of compute "[c]"] c
        by (simp add: cn)
      then show ?thesis by simp
    qed
    from data3 df3 an show ?thesis by blast
  qed
  from v fr ok show ?thesis unfolding ev by blast
qed


theorem sigma_change_recomputes_data_and_analysis_witness:
  "visited (evaluate (scenario [count_cell]) sum_inputs
      (notify (scenario [count_cell]) [''sigma''] scenario_state)) = [''data'', ''analysis''] \<and>
   cache (evaluate (scenario [count_cell]) sum_inputs
      (notify (scenario [count_cell]) [''sigma''] scenario_state)) ''df'' = Some 508 \<and>
   cache (evaluate (scenario [count_cell]) sum_inputs
      (notify (scenario [count_cell]) [''sigma''] scenario_state)) ''corr'' = Some 509 \<and>
   status (evaluate (scenario [count_cell]) sum_inputs
      (notify (scenario [count_cell]) [''sigma''] scenario_state)) ''count'' = Fresh \<and>
   cache (evaluate (scenario [count_cell]) sum_inputs
      (notify (scenario [count_cell]) [''sigma''] scenario_state)) ''m'' = Some 500"
proof -
  let ?st' = "evaluate (scenario [count_cell]) sum_inputs
      (notify (scenario [count_cell]) [''sigma''] scenario_state)"
  have h1: "\<forall>c \<in> set [count_cell]. only_n c"
    by (simp add: only_n_def count_cell_def)
  have h2: "distinct (map cname (scenario [count_cell]))"
    by (simp add: scenario_def count_cell_def cell_defs)
  have h3: "distinct (outputs (scenario [count_cell]))"
    by (simp add: scenario_def outputs_def count_cell_def cell_defs)
  have h4: "\<forall>c \<in> set (scenario [count_cell]). status scenario_state (cname c) = Fresh"
    by (simp add: scenario_state_def)
  have h5: "vcells scenario_state ''np'' = Some 1" "vcells scenario_state ''pd'' = Some 2"
    "vcells scenario_state ''n'' = Some 500" "vcells scenario_state ''sigma'' = Some 5"
    "vcells scenario_state ''df'' = None"
    by (simp_all add: scenario_state_def)
  note run = sigma_change_recomputes_data_and_analysis [OF h1 h2 h3 h4 h5, of sum_inputs]
  have d: "sum_inputs ''data'' [1, 2, 500, 5] = Inr [508]"
    and a: "sum_inputs ''analysis'' [1, 508] = Inr [509]"
    by (simp_all add: sum_inputs_def)
  from run have "visited ?st' = [''data'', ''analysis'']" by blast
  moreover from run d a have "cache ?st' ''df'' = Some 508" "cache ?st' ''corr'' = Some 509"
    by blast+
  moreover from run have "status ?st' (cname count_cell) = status scenario_state (cname count_cell)"
    "\<forall>r \<in> set (returns count_cell). cache ?st' r = cache scenario_state r"
    by simp_all
  then have "status ?st' ''count'' = Fresh" "cache ?st' ''m'' = Some 500"
    by (simp_all add: count_cell_def scenario_state_def)
  ultimately show ?thesis by simp
qed

section \<open>Fault containment\<close>

lemma topo_ok_append:
  "topo_ok (pre @ c # rest) \<Longrightarrow> d \<in> set (c # rest) \<Longrightarrow> \<not> depends_on c d"
  by (induction pre) (auto simp: list_all_iff)

lemma downstream_step:
  assumes "c \<in> set cs"
  shows "downstream cs x c \<longleftrightarrow> c = x \<or> (\<exists>d \<in> set cs. depends_on c d \<and> downstream cs x d)"
proof -
  have "(c, x) \<in> (dep_rel cs)\<^sup>+ \<longleftrightarrow> (\<exists>d. (c, d) \<in> dep_rel cs \<and> (d, x) \<in> (dep_rel cs)\<^sup>*)"
    by (metis converse_tranclE rtrancl_into_trancl2 trancl_into_rtrancl
        rtrancl.rtrancl_refl)
  also have "\<dots> \<longleftrightarrow> (\<exists>d \<in> set cs. depends_on c d \<and> (d = x \<or> (d, x) \<in> (dep_rel cs)\<^sup>+))"
    using assms by (auto simp: dep_rel_def rtrancl_eq_or_trancl)
  finally show ?thesis by (auto simp: downstream_def)
qed

lemma resolve_all_Some:
  "\<forall>p \<in> set ps. resolve st p \<noteq> None \<Longrightarrow> \<exists>args. resolve_all st ps = Some args"
  by (induction ps) auto

lemma stale_closed_downstream:
  assumes closed: "\<forall>c \<in> set cs. \<forall>d \<in> set cs.
      depends_on c d \<and> status st (cname d) = Stale \<longrightarrow> status st (cname c) = Stale"
    and x: "status st (cname x) = Stale"
    and d: "downstream cs x c"
  shows "status st (cname c) = Stale"
proof (cases "c = x")
  case True
  with x show ?thesis by simp
next
  case False
  with d have "(c, x) \<in> (dep_rel cs)\<^sup>+" by (simp add: downstream_def)
  then show ?thesis
  proof (induction rule: converse_trancl_induct)
    case (base y)
    with closed x show ?case by (auto simp: dep_rel_def)
  next
    case (step y z)
    with closed show ?case by (auto simp: dep_rel_def)
  qed
qed


lemma resolve_cached: "cache st p \<noteq> None \<Longrightarrow> resolve st p \<noteq> None"
  by (simp add: resolve_def split: option.splits)

lemma resolve_vcell: "vcells st p \<noteq> None \<Longrightarrow> resolve st p \<noteq> None"
  by (auto simp: resolve_def split: option.splits)

lemma depends_onI: "p \<in> set (params c) \<Longrightarrow> p \<in> set (returns d) \<Longrightarrow> depends_on c d"
  by (auto simp: depends_on_def list_ex_iff)

lemma run_cell_contained:
  assumes topo: "topo_ok cs" and split: "cs = pre @ c # rest"
    and raises: "\<forall>args. \<exists>e. f (cname x) args = Inl e"
    and others: "\<forall>c \<in> set cs. c \<noteq> x \<longrightarrow>
      (\<forall>args. \<exists>outs. f (cname c) args = Inr outs \<and> length outs = length (returns c))"
    and vc: "\<forall>c \<in> set cs. \<forall>p \<in> set (params c). p \<in> set (outputs cs) \<or> vcells st p \<noteq> None"
    and inv_pre: "\<forall>d \<in> set pre. status st (cname d) = (if downstream cs x d then Errored else Fresh)"
    and inv_cache: "\<forall>d \<in> set pre. \<not> downstream cs x d \<longrightarrow> (\<forall>r \<in> set (returns d). cache st r \<noteq> None)"
  shows "status (run_cell cs f c st) (cname c) = (if downstream cs x c then Errored else Fresh)"
proof -
  have c_in: "c \<in> set cs" using split by simp
  have dep_pre: "d \<in> set pre" if "d \<in> set cs" "depends_on c d" for d
    using that topo_ok_append [of pre c rest d] topo split by auto
  have uf: "upstream_failed cs st c \<longleftrightarrow> (\<exists>d \<in> set cs. depends_on c d \<and> downstream cs x d)"
  proof
    assume "upstream_failed cs st c"
    then obtain d where d: "d \<in> set cs" "status st (cname d) = Errored" "depends_on c d"
      by (auto simp: upstream_failed_def list_ex_iff)
    with dep_pre inv_pre have "downstream cs x d"
      by (metis cstate.distinct(11))
    with d show "\<exists>d \<in> set cs. depends_on c d \<and> downstream cs x d" by blast
  next
    assume "\<exists>d \<in> set cs. depends_on c d \<and> downstream cs x d"
    then obtain d where d: "d \<in> set cs" "depends_on c d" "downstream cs x d" by blast
    with dep_pre inv_pre have "status st (cname d) = Errored" by auto
    with d show "upstream_failed cs st c"
      by (auto simp: upstream_failed_def list_ex_iff)
  qed
  show ?thesis
  proof (cases "upstream_failed cs st c")
    case True
    with uf downstream_step [OF c_in, of x] show ?thesis
      by (simp add: run_cell_status_self)
  next
    case False
    have "\<forall>p \<in> set (params c). resolve st p \<noteq> None"
    proof
      fix p assume p: "p \<in> set (params c)"
      show "resolve st p \<noteq> None"
      proof (cases "vcells st p = None")
        case False
        then show ?thesis by (rule resolve_vcell)
      next
        case True
        with vc c_in p have "p \<in> set (outputs cs)" by blast
        then obtain d where d: "d \<in> set cs" "p \<in> set (returns d)"
          by (auto simp: outputs_def)
        with p have dep: "depends_on c d" by (simp add: depends_onI)
        with d dep_pre have "d \<in> set pre" by simp
        moreover from False uf d dep have "\<not> downstream cs x d" by blast
        ultimately have "cache st p \<noteq> None" using inv_cache d by blast
        then show ?thesis by (rule resolve_cached)
      qed
    qed
    then obtain args where args: "resolve_all st (params c) = Some args"
      using resolve_all_Some by blast
    show ?thesis
    proof (cases "c = x")
      case True
      from raises obtain e where "f (cname x) args = Inl e" by blast
      with True False args show ?thesis
        by (simp add: run_cell_status_self downstream_def)
    next
      case cx: False
      with others c_in obtain outs where
        "f (cname c) args = Inr outs" "length outs = length (returns c)" by blast
      moreover from cx False uf downstream_step [OF c_in, of x]
      have "\<not> downstream cs x c" by simp
      ultimately show ?thesis using False args
        by (simp add: run_cell_status_self)
    qed
  qed
qed


lemma eval_walk_contained:
  assumes topo: "topo_ok cs" and dist: "distinct (map cname cs)"
    and raises: "\<forall>args. \<exists>e. f (cname x) args = Inl e"
    and others: "\<forall>c \<in> set cs. c \<noteq> x \<longrightarrow>
      (\<forall>args. \<exists>outs. f (cname c) args = Inr outs \<and> length outs = length (returns c))"
    and split: "cs = pre @ rest"
    and vc: "\<forall>c \<in> set cs. \<forall>p \<in> set (params c). p \<in> set (outputs cs) \<or> vcells st p \<noteq> None"
    and inv_pre: "\<forall>d \<in> set pre. status st (cname d) = (if downstream cs x d then Errored else Fresh)"
    and inv_cache: "\<forall>d \<in> set pre. \<not> downstream cs x d \<longrightarrow> (\<forall>r \<in> set (returns d). cache st r \<noteq> None)"
    and inv_rest: "\<forall>d \<in> set rest. status st (cname d) = Stale \<or>
      (status st (cname d) = Fresh \<and> \<not> downstream cs x d \<and> (\<forall>r \<in> set (returns d). cache st r \<noteq> None))"
  shows "\<forall>c \<in> set cs. status (eval_walk cs f rest st) (cname c)
           = (if downstream cs x c then Errored else Fresh)"
  using split vc inv_pre inv_cache inv_rest
proof (induction rest arbitrary: pre st)
  case Nil
  then show ?case by simp
next
  case (Cons c rest)
  let ?st' = "if status st (cname c) = Stale then run_cell cs f c st else st"
  have split': "cs = (pre @ [c]) @ rest" using Cons.prems(1) by simp
  have names: "cname d \<noteq> cname c" if "d \<in> set pre \<union> set rest" for d
    using that dist unfolding Cons.prems(1) by (auto simp: image_iff)
  have keep: "status ?st' (cname d) = status st (cname d)" if "d \<in> set pre \<union> set rest" for d
    using names [OF that] by (simp add: run_cell_status_other)
  have ckeep: "cache ?st' r \<noteq> None" if "cache st r \<noteq> None" for r
    using run_cell_cache_kept [OF that, of cs f c] that by (simp del: not_None_eq)
  have here: "status ?st' (cname c) = (if downstream cs x c then Errored else Fresh)"
  proof (cases "status st (cname c) = Stale")
    case True
    then show ?thesis
      using run_cell_contained [OF topo Cons.prems(1) raises others Cons.prems(2,3,4)]
      by simp
  next
    case False
    with Cons.prems(5) show ?thesis by auto
  qed
  have chere: "cache ?st' r \<noteq> None" if "\<not> downstream cs x c" "r \<in> set (returns c)" for r
  proof (cases "status st (cname c) = Stale")
    case True
    with here that(1) have "status (run_cell cs f c st) (cname c) = Fresh" by simp
    from run_cell_cache_self [OF this that(2)] True show ?thesis by simp
  next
    case False
    with Cons.prems(5) that show ?thesis by auto
  qed
  have vc': "\<forall>c \<in> set cs. \<forall>p \<in> set (params c). p \<in> set (outputs cs) \<or> vcells ?st' p \<noteq> None"
    using Cons.prems(2) by (simp add: run_cell_vcells)
  have pre': "\<forall>d \<in> set (pre @ [c]). status ?st' (cname d)
      = (if downstream cs x d then Errored else Fresh)"
    using Cons.prems(3) keep here by auto
  have cache': "\<forall>d \<in> set (pre @ [c]). \<not> downstream cs x d \<longrightarrow>
      (\<forall>r \<in> set (returns d). cache ?st' r \<noteq> None)"
    using Cons.prems(4) ckeep chere by auto
  have rest': "\<forall>d \<in> set rest. status ?st' (cname d) = Stale \<or>
      (status ?st' (cname d) = Fresh \<and> \<not> downstream cs x d \<and>
       (\<forall>r \<in> set (returns d). cache ?st' r \<noteq> None))"
  proof
    fix d assume d: "d \<in> set rest"
    with Cons.prems(5) have "status st (cname d) = Stale \<or>
      (status st (cname d) = Fresh \<and> \<not> downstream cs x d \<and>
       (\<forall>r \<in> set (returns d). cache st r \<noteq> None))" by simp
    with keep [of d] d ckeep show "status ?st' (cname d) = Stale \<or>
      (status ?st' (cname d) = Fresh \<and> \<not> downstream cs x d \<and>
       (\<forall>r \<in> set (returns d). cache ?st' r \<noteq> None))"
      by (metis UnCI)
  qed
  from Cons.IH [OF split' vc' pre' cache' rest'] show ?case by simp
qed

text \<open>
  C8. Fault containment. When the compute function of one stale cell \<open>x\<close> raises and
  every other cell computes normally, the pass ends with \<open>x\<close> and every cell downstream
  of \<open>x\<close> in the error state and every other cell fresh, and it has worked on every
  stale cell: the failure does not stop the pass. The state before the pass is any state
  \<^verbatim>\<open>notify\<close> leaves: a cell is stale or fresh with its outputs cached, and the
  dependents of a stale cell are stale.
\<close>

theorem fault_containment:
  assumes "topo_ok cs" "distinct (map cname cs)" "x \<in> set cs"
    and "\<forall>c \<in> set cs. status st (cname c) = Stale \<or>
           (status st (cname c) = Fresh \<and> (\<forall>r \<in> set (returns c). cache st r \<noteq> None))"
    and "status st (cname x) = Stale"
    and "\<forall>c \<in> set cs. \<forall>d \<in> set cs.
           depends_on c d \<and> status st (cname d) = Stale \<longrightarrow> status st (cname c) = Stale"
    and "\<forall>c \<in> set cs. \<forall>p \<in> set (params c). p \<in> set (outputs cs) \<or> vcells st p \<noteq> None"
    and "\<forall>args. \<exists>e. compute (cname x) args = Inl e"
    and "\<forall>c \<in> set cs. c \<noteq> x \<longrightarrow>
           (\<forall>args. \<exists>outs. compute (cname c) args = Inr outs \<and> length outs = length (returns c))"
  shows "(\<forall>c \<in> set cs. status (evaluate cs compute st) (cname c)
            = (if downstream cs x c then Errored else Fresh)) \<and>
         visited (evaluate cs compute st)
            = map cname (filter (\<lambda>c. status st (cname c) = Stale) cs)"
proof -
  let ?st = "st\<lparr>visited := []\<rparr>"
  have rest: "\<forall>d \<in> set cs. status ?st (cname d) = Stale \<or>
      (status ?st (cname d) = Fresh \<and> \<not> downstream cs x d \<and>
       (\<forall>r \<in> set (returns d). cache ?st r \<noteq> None))"
  proof
    fix d assume d: "d \<in> set cs"
    show "status ?st (cname d) = Stale \<or>
      (status ?st (cname d) = Fresh \<and> \<not> downstream cs x d \<and>
       (\<forall>r \<in> set (returns d). cache ?st r \<noteq> None))"
    proof (cases "status st (cname d) = Stale")
      case True
      then show ?thesis by simp
    next
      case False
      with stale_closed_downstream [OF assms(6,5), of d] have "\<not> downstream cs x d" by blast
      with False assms(4) d show ?thesis by auto
    qed
  qed
  have "\<forall>c \<in> set cs. status (eval_walk cs compute cs ?st) (cname c)
           = (if downstream cs x c then Errored else Fresh)"
    by (rule eval_walk_contained [OF assms(1,2,8,9), where pre = "[]"])
       (use assms(7) rest in simp_all)
  moreover have "visited (eval_walk cs compute cs ?st)
      = map cname (filter (\<lambda>c. status st (cname c) = Stale) cs)"
    using eval_walk_visited [OF assms(2), of cs compute ?st] by simp
  ultimately show ?thesis by (simp add: evaluate_def)
qed

theorem fault_containment_witness:
  "status (evaluate app_cells (zeros_except ''analysis'') (notify app_cells [''sigma''] all_fresh))
     ''analysis'' = Errored \<and>
   status (evaluate app_cells (zeros_except ''analysis'') (notify app_cells [''sigma''] all_fresh))
     ''summary'' = Errored \<and>
   status (evaluate app_cells (zeros_except ''analysis'') (notify app_cells [''sigma''] all_fresh))
     ''plot'' = Fresh \<and>
   visited (evaluate app_cells (zeros_except ''analysis'') (notify app_cells [''sigma''] all_fresh))
     = [''data'', ''analysis'', ''summary'', ''plot'', ''preview'']"
proof -
  let ?st = "notify app_cells [''sigma''] all_fresh :: nat gstate"
  let ?f = "zeros_except ''analysis''"
  have st: "status ?st = (\<lambda>nm. if nm \<in> set [''data'', ''analysis'', ''summary'', ''plot'', ''preview'']
      then Stale else Fresh)"
    "cache ?st = map_of (map (\<lambda>x. (x, 7)) (outputs app_cells))"
    "vcells ?st = [''mo'' \<mapsto> 1]"
    by (simp_all add: notify_def affected_sigma all_fresh_def cong: if_cong)
  have h3: "analysis_cell \<in> set app_cells" by (simp add: app_cells_def)
  have h4: "\<forall>c \<in> set app_cells. status ?st (cname c) = Stale \<or>
      (status ?st (cname c) = Fresh \<and> (\<forall>r \<in> set (returns c). cache ?st r \<noteq> None))"
    unfolding st by (simp add: app_cells_def cell_defs outputs_def)
  have h5: "status ?st (cname analysis_cell) = Stale"
    unfolding st by (simp add: cell_defs)
  have h6: "\<forall>c \<in> set app_cells. \<forall>d \<in> set app_cells.
      depends_on c d \<and> status ?st (cname d) = Stale \<longrightarrow> status ?st (cname c) = Stale"
    unfolding st by (simp add: app_cells_def cell_defs depends_on_def)
  have h7: "\<forall>c \<in> set app_cells. \<forall>p \<in> set (params c).
      p \<in> set (outputs app_cells) \<or> vcells ?st p \<noteq> None"
    unfolding st by (simp add: app_cells_def cell_defs outputs_def)
  have h8: "\<forall>args. \<exists>e. ?f (cname analysis_cell) args = Inl e"
    by (simp add: zeros_except_def cell_defs)
  have h9: "\<forall>c \<in> set app_cells. c \<noteq> analysis_cell \<longrightarrow>
      (\<forall>args. \<exists>outs. ?f (cname c) args = Inr outs \<and> length outs = length (returns c))"
    by (simp add: zeros_except_def app_cells_def cell_defs)
  note contained = fault_containment [OF app_topo_ok app_names_distinct h3 h4 h5 h6 h7 h8 h9]
  have in_cells: "imports_cell \<in> set app_cells" "widgets_cell \<in> set app_cells"
    "data_cell \<in> set app_cells" "plot_cell \<in> set app_cells" "summary_cell \<in> set app_cells"
    by (simp_all add: app_cells_def)
  have d0: "downstream app_cells analysis_cell analysis_cell"
    by (simp add: downstream_def)
  have "(summary_cell, analysis_cell) \<in> dep_rel app_cells"
    by (simp add: dep_rel_def app_cells_def depends_on_def cell_defs)
  then have d1: "downstream app_cells analysis_cell summary_cell"
    by (simp add: downstream_def r_into_trancl)
  have n1: "\<not> downstream app_cells analysis_cell imports_cell"
    using downstream_step [OF in_cells(1), of analysis_cell]
    by (simp add: app_cells_def cell_defs depends_on_def)
  have n2: "\<not> downstream app_cells analysis_cell widgets_cell"
    using downstream_step [OF in_cells(2), of analysis_cell]
    by (simp add: app_cells_def cell_defs depends_on_def)
  have n3: "\<not> downstream app_cells analysis_cell data_cell"
    using downstream_step [OF in_cells(3), of analysis_cell] n1 n2
    by (simp add: app_cells_def cell_defs depends_on_def)
  have n4: "\<not> downstream app_cells analysis_cell plot_cell"
    using downstream_step [OF in_cells(4), of analysis_cell] n1 n3
    by (simp add: app_cells_def cell_defs depends_on_def)
  from contained h3 d0 have "status (evaluate app_cells ?f ?st) (cname analysis_cell) = Errored"
    by simp
  moreover from contained in_cells(5) d1
  have "status (evaluate app_cells ?f ?st) (cname summary_cell) = Errored"
    by simp
  moreover from contained in_cells(4) n4
  have "status (evaluate app_cells ?f ?st) (cname plot_cell) = Fresh"
    by simp
  moreover from contained have "visited (evaluate app_cells ?f ?st)
      = map cname (filter (\<lambda>c. status ?st (cname c) = Stale) app_cells)" by simp
  then have "visited (evaluate app_cells ?f ?st)
      = [''data'', ''analysis'', ''summary'', ''plot'', ''preview'']"
    unfolding st by (simp add: app_cells_def cell_defs)
  ultimately show ?thesis by (simp add: cell_defs)
qed

end
